theory Spec2Isabelle
  imports Complex_Main "HOL-Library.Word" "HOL-Library.Log_Nat" "HOL-Library.Monad_Syntax"
begin

unbundle bit_operations_syntax

section \<open>C scalar types of the target\<close>

text \<open>
  The program is built for macOS (it talks to IOKit), on x86-64 or arm64. On both, \<open>char\<close> is a
  signed 8-bit type, \<open>int\<close> is 32-bit two's complement, \<open>float\<close> and \<open>double\<close> are IEEE-754
  binary32 and binary64 evaluated in their own precision, and the byte order is little-endian.
  A \<open>char\<close> is an \<open>8 word\<close> read through \<open>sint\<close> when it is promoted to \<open>int\<close>.
  Behaviour that C leaves undefined and the compilers do not fix (a read outside a buffer, a
  shift count outside 0..31, a \<open>sprintf\<close> past the end of its buffer) is the value \<open>None\<close>.
  A left shift of a negative \<open>int\<close> is what clang and gcc compile it to: the shift of the
  two's complement bit pattern.
\<close>

type_synonym cchar = "8 word"
type_synonym cint = "32 word"
type_synonym UInt32 = "32 word"
type_synonym UInt16 = "16 word"
type_synonym kern_return_t = "32 word"

definition kIOReturnSuccess :: kern_return_t where
  "kIOReturnSuccess = 0"

definition KERNEL_INDEX_SMC :: int where
  "KERNEL_INDEX_SMC = 2"

definition SMC_CMD_READ_BYTES :: cchar where
  "SMC_CMD_READ_BYTES = 5"

definition SMC_CMD_READ_KEYINFO :: cchar where
  "SMC_CMD_READ_KEYINFO = 9"

text \<open>\<open>x << n\<close> and \<open>x >> n\<close> on \<open>int\<close>.\<close>

definition shl_int :: "cint \<Rightarrow> int \<Rightarrow> cint option" where
  "shl_int x n = (if 0 \<le> n \<and> n < 32 then Some (push_bit (nat n) x) else None)"

definition shr_int :: "cint \<Rightarrow> int \<Rightarrow> cint option" where
  "shr_int x n = (if 0 \<le> n \<and> n < 32 then Some (signed_drop_bit (nat n) x) else None)"

text \<open>\<open>str[i]\<close> for a \<open>char *str\<close>, promoted to \<open>int\<close>.\<close>

definition char_at :: "cchar list \<Rightarrow> int \<Rightarrow> cint option" where
  "char_at str i = (if 0 \<le> i \<and> nat i < length str then Some (scast (str ! nat i)) else None)"

text \<open>A string literal as the bytes it occupies, with its terminator.\<close>

definition c_str :: "string \<Rightarrow> cchar list" where
  "c_str s = map of_char s @ [0]"

text \<open>\<open>strcmp(a, b) == 0\<close>: the two buffers agree up to their first terminator.\<close>

definition strcmp_eq :: "cchar list \<Rightarrow> cchar list \<Rightarrow> bool" where
  "strcmp_eq a b = (takeWhile (\<lambda>c. c \<noteq> 0) a = takeWhile (\<lambda>c. c \<noteq> 0) b)"

section \<open>IEEE-754 values and round-to-nearest-even\<close>

text \<open>
  A \<open>float\<close> or \<open>double\<close> is a finite real (\<open>Fin 0\<close> is +0), the negative zero, an infinity or
  a NaN. A format is its precision in bits, the exponent of its smallest subnormal and the
  exponent of the first power of two it cannot hold.
\<close>

datatype fp = Fin real | NZero | PInf | NInf | NaN

record fp_format =
  prec :: nat
  qmin :: int
  emax :: int

definition binary32 :: fp_format where
  "binary32 = \<lparr>prec = 24, qmin = - 149, emax = 128\<rparr>"

definition binary64 :: fp_format where
  "binary64 = \<lparr>prec = 53, qmin = - 1074, emax = 1024\<rparr>"

text \<open>The exponent of the leading bit of a positive real.\<close>

definition ilog2 :: "real \<Rightarrow> int" where
  "ilog2 x = (if 1 \<le> x then bitlen \<lfloor>x\<rfloor> - 1 else - bitlen (\<lceil>1 / x\<rceil> - 1))"

definition round_half_even :: "real \<Rightarrow> int" where
  "round_half_even y =
     (let f = \<lfloor>y\<rfloor>; d = y - of_int f
      in if d < 1 / 2 then f else if 1 / 2 < d then f + 1 else if even f then f else f + 1)"

text \<open>
  Rounding a real to a format: the significand is rounded to \<open>prec\<close> bits (fewer in the
  subnormal range), ties to even; a result of magnitude \<open>2 ^ emax\<close> or more is an infinity, a
  result that rounds to nothing is a zero of the sign of the operand.
\<close>

definition fp_round :: "fp_format \<Rightarrow> real \<Rightarrow> fp" where
  "fp_round fmt x =
     (if x = 0 then Fin 0
      else
        let q = max (qmin fmt) (ilog2 \<bar>x\<bar> - int (prec fmt) + 1);
            m = round_half_even (\<bar>x\<bar> / 2 powi q);
            r = of_int m * 2 powi q
        in if 2 powi (emax fmt) \<le> r then (if x < 0 then NInf else PInf)
           else if m = 0 then (if x < 0 then NZero else Fin 0)
           else Fin (if x < 0 then - r else r))"

fun fp_val :: "fp \<Rightarrow> real" where
  "fp_val (Fin x) = x"
| "fp_val _ = 0"

fun fp_is_finite :: "fp \<Rightarrow> bool" where
  "fp_is_finite (Fin x) = True"
| "fp_is_finite NZero = True"
| "fp_is_finite _ = False"

fun fp_is_zero :: "fp \<Rightarrow> bool" where
  "fp_is_zero (Fin x) = (x = 0)"
| "fp_is_zero NZero = True"
| "fp_is_zero _ = False"

fun fp_is_inf :: "fp \<Rightarrow> bool" where
  "fp_is_inf PInf = True"
| "fp_is_inf NInf = True"
| "fp_is_inf _ = False"

text \<open>The sign bit (of a value that is not a NaN).\<close>

fun fp_sign :: "fp \<Rightarrow> bool" where
  "fp_sign (Fin x) = (x < 0)"
| "fp_sign NZero = True"
| "fp_sign NInf = True"
| "fp_sign _ = False"

fun fp_neg :: "fp \<Rightarrow> fp" where
  "fp_neg (Fin x) = (if x = 0 then NZero else Fin (- x))"
| "fp_neg NZero = Fin 0"
| "fp_neg PInf = NInf"
| "fp_neg NInf = PInf"
| "fp_neg NaN = NaN"

definition fp_zero :: "bool \<Rightarrow> fp" where
  "fp_zero s = (if s then NZero else Fin 0)"

definition fp_inf :: "bool \<Rightarrow> fp" where
  "fp_inf s = (if s then NInf else PInf)"

definition fp_add :: "fp_format \<Rightarrow> fp \<Rightarrow> fp \<Rightarrow> fp" where
  "fp_add fmt a b =
     (if a = NaN \<or> b = NaN then NaN
      else if fp_is_inf a then (if fp_is_inf b \<and> a \<noteq> b then NaN else a)
      else if fp_is_inf b then b
      else if fp_val a + fp_val b = 0 then (if a = NZero \<and> b = NZero then NZero else Fin 0)
      else fp_round fmt (fp_val a + fp_val b))"

definition fp_sub :: "fp_format \<Rightarrow> fp \<Rightarrow> fp \<Rightarrow> fp" where
  "fp_sub fmt a b = fp_add fmt a (fp_neg b)"

definition fp_mul :: "fp_format \<Rightarrow> fp \<Rightarrow> fp \<Rightarrow> fp" where
  "fp_mul fmt a b =
     (if a = NaN \<or> b = NaN then NaN
      else if (fp_is_zero a \<and> fp_is_inf b) \<or> (fp_is_inf a \<and> fp_is_zero b) then NaN
      else if fp_is_inf a \<or> fp_is_inf b then fp_inf (fp_sign a \<noteq> fp_sign b)
      else if fp_is_zero a \<or> fp_is_zero b then fp_zero (fp_sign a \<noteq> fp_sign b)
      else fp_round fmt (fp_val a * fp_val b))"

definition fp_div :: "fp_format \<Rightarrow> fp \<Rightarrow> fp \<Rightarrow> fp" where
  "fp_div fmt a b =
     (if a = NaN \<or> b = NaN then NaN
      else if (fp_is_zero a \<and> fp_is_zero b) \<or> (fp_is_inf a \<and> fp_is_inf b) then NaN
      else if fp_is_inf a \<or> fp_is_zero b then fp_inf (fp_sign a \<noteq> fp_sign b)
      else if fp_is_zero a \<or> fp_is_inf b then fp_zero (fp_sign a \<noteq> fp_sign b)
      else fp_round fmt (fp_val a / fp_val b))"

text \<open>\<open>a < b\<close>: false as soon as one side is a NaN; the two zeros are equal.\<close>

definition fp_lt :: "fp \<Rightarrow> fp \<Rightarrow> bool" where
  "fp_lt a b =
     (if a = NaN \<or> b = NaN then False
      else if a = NInf then b \<noteq> NInf
      else if b = PInf then a \<noteq> PInf
      else if a = PInf \<or> b = NInf then False
      else fp_val a < fp_val b)"

text \<open>A conversion between the formats (\<open>float\<close> to \<open>double\<close> is exact, the other way rounds).\<close>

fun fp_convert :: "fp_format \<Rightarrow> fp \<Rightarrow> fp" where
  "fp_convert fmt (Fin x) = fp_round fmt x"
| "fp_convert fmt a = a"

definition int_to_fp :: "fp_format \<Rightarrow> cint \<Rightarrow> fp" where
  "int_to_fp fmt n = fp_round fmt (real_of_int (sint n))"

text \<open>
  \<open>memcpy(&fval, bytes, sizeof(float))\<close>: the first four bytes, least significant first,
  are the bit pattern of a binary32 value.
\<close>

definition f32_of_bits :: "UInt32 \<Rightarrow> fp" where
  "f32_of_bits w =
     (let s = bit w 31;
          e = uint (drop_bit 23 w AND 0xFF);
          m = uint (w AND 0x7FFFFF)
      in if e = 255 then (if m = 0 then fp_inf s else NaN)
         else if e = 0 then
           (if m = 0 then fp_zero s
            else Fin ((if s then - 1 else 1) * real_of_int m * 2 powi (- 149)))
         else Fin ((if s then - 1 else 1) * real_of_int (2 ^ 23 + m) * 2 powi (e - 150)))"

definition float_of_bytes :: "cchar list \<Rightarrow> fp option" where
  "float_of_bytes bs =
     (if 4 \<le> length bs
      then Some (f32_of_bits
        (ucast (bs ! 0) OR push_bit 8 (ucast (bs ! 1)) OR push_bit 16 (ucast (bs ! 2))
           OR push_bit 24 (ucast (bs ! 3))))
      else None)"

section \<open>Key codec\<close>

text \<open>
  \<open>_strtoul\<close> (an identifier cannot begin with an underscore here, hence \<open>smc_\<close>). The loop
  \<open>for (i = 0; i < size; i++)\<close> is the recursion on \<open>i\<close>. In the branch for the other bases the
  cast to \<open>unsigned char\<close> applies to the shifted value, as the source has it.
\<close>

function strtoul_loop :: "cchar list \<Rightarrow> int \<Rightarrow> int \<Rightarrow> int \<Rightarrow> UInt32 \<Rightarrow> UInt32 option" where
  "strtoul_loop str sz base i tot =
     (if i < sz then
        (case char_at str i of
           None \<Rightarrow> None
         | Some c \<Rightarrow>
            (case shl_int c ((sz - 1 - i) * 8) of
               None \<Rightarrow> None
             | Some v \<Rightarrow>
                 if base = 16
                 then strtoul_loop str sz base (i + 1) (tot + v)
                 else strtoul_loop str sz base (i + 1) (tot + ucast (ucast v :: 8 word))))
      else Some tot)"
  by pat_completeness auto
termination
  by (relation "measure (\<lambda>(str, sz, base, i, tot). nat (sz - i))") auto

declare strtoul_loop.simps [simp del]

definition smc_strtoul :: "cchar list \<Rightarrow> int \<Rightarrow> int \<Rightarrow> UInt32 option" where
  "smc_strtoul str sz base = strtoul_loop str sz base 0 0"

text \<open>
  \<open>_ultostr\<close>: \<open>sprintf(str, "%c%c%c%c", val >> 24, val >> 16, val >> 8, val)\<close>. Each \<open>%c\<close>
  writes its argument converted to \<open>unsigned char\<close>; the result is the five bytes written,
  terminator included.
\<close>

definition smc_ultostr :: "UInt32 \<Rightarrow> cchar list" where
  "smc_ultostr val =
     [ucast (drop_bit 24 val), ucast (drop_bit 16 val), ucast (drop_bit 8 val), ucast val, 0]"

text \<open>
  The reading of a byte string as a big-endian unsigned integer, in the words of the
  specification; the loop above is compared with it.
\<close>

fun be_unsigned :: "cchar list \<Rightarrow> nat" where
  "be_unsigned [] = 0"
| "be_unsigned (b # bs) = unat b * 256 ^ length bs + be_unsigned bs"

section \<open>Fixed-point decoder\<close>

text \<open>
  \<open>_strtof\<close>. \<open>total\<close> is a \<open>float\<close>: each \<open>total += n\<close> converts the \<open>int\<close> to \<open>float\<close> and adds
  in binary32. The last statement multiplies and adds in \<open>double\<close> and stores back to \<open>float\<close>.
\<close>

function strtof_loop :: "cchar list \<Rightarrow> int \<Rightarrow> int \<Rightarrow> int \<Rightarrow> fp \<Rightarrow> fp option" where
  "strtof_loop str sz e i tot =
     (if i < sz then
        (case char_at str i of
           None \<Rightarrow> None
         | Some c \<Rightarrow>
            if i = sz - 1
            then (case shr_int (c AND 0xFF) e of
                    None \<Rightarrow> None
                  | Some v \<Rightarrow>
                      strtof_loop str sz e (i + 1) (fp_add binary32 tot (int_to_fp binary32 v)))
            else (case shl_int c ((sz - 1 - i) * (8 - e)) of
                    None \<Rightarrow> None
                  | Some v \<Rightarrow>
                      strtof_loop str sz e (i + 1) (fp_add binary32 tot (int_to_fp binary32 v))))
      else Some tot)"
  by pat_completeness auto
termination
  by (relation "measure (\<lambda>(str, sz, e, i, tot). nat (sz - i))") auto

declare strtof_loop.simps [simp del]

definition smc_strtof :: "cchar list \<Rightarrow> int \<Rightarrow> int \<Rightarrow> fp option" where
  "smc_strtof str sz e =
     (case strtof_loop str sz e 0 (Fin 0) of
        None \<Rightarrow> None
      | Some tot \<Rightarrow>
          (case char_at str (sz - 1) of
             None \<Rightarrow> None
           | Some c \<Rightarrow>
               Some (fp_convert binary32
                 (fp_add binary64 tot
                    (fp_mul binary64 (int_to_fp binary64 (c AND 0x03)) (Fin 0.25))))))"

section \<open>Controller session\<close>

record SMCKeyData_vers_t =
  major :: cchar
  minor :: cchar
  build :: cchar
  reserved :: "cchar list"
  release :: UInt16

record SMCKeyData_pLimitData_t =
  version :: UInt16
  length' :: UInt16
  cpuPLimit :: UInt32
  gpuPLimit :: UInt32
  memPLimit :: UInt32

record SMCKeyData_keyInfo_t =
  dataSize :: UInt32
  dataType :: UInt32
  dataAttributes :: cchar

record SMCKeyData_t =
  key :: UInt32
  vers :: SMCKeyData_vers_t
  pLimitData :: SMCKeyData_pLimitData_t
  keyInfo :: SMCKeyData_keyInfo_t
  result :: cchar
  status :: cchar
  data8 :: cchar
  data32 :: UInt32
  bytes :: "cchar list"

record SMCVal_t =
  key :: "cchar list"
  dataSize :: UInt32
  dataType :: "cchar list"
  bytes :: "cchar list"

text \<open>\<open>memset(&s, 0, sizeof s)\<close> on each of the structures.\<close>

definition SMCKeyData_zero :: SMCKeyData_t where
  "SMCKeyData_zero =
     \<lparr>SMCKeyData_t.key = 0,
      vers = \<lparr>major = 0, minor = 0, build = 0, reserved = [0], release = 0\<rparr>,
      pLimitData = \<lparr>version = 0, length' = 0, cpuPLimit = 0, gpuPLimit = 0, memPLimit = 0\<rparr>,
      keyInfo = \<lparr>SMCKeyData_keyInfo_t.dataSize = 0, dataType = 0, dataAttributes = 0\<rparr>,
      result = 0, status = 0, data8 = 0, data32 = 0,
      bytes = replicate 32 0\<rparr>"

definition SMCVal_zero :: SMCVal_t where
  "SMCVal_zero =
     \<lparr>key = replicate 5 0, dataSize = 0, dataType = replicate 5 0, bytes = replicate 32 0\<rparr>"

text \<open>
  The kernel service behind \<open>IOConnectCallStructMethod\<close> is not part of the program: it is a
  parameter, a function from the state of the device, the selector, the input structure
  and the output structure as it stands to the status, the output structure and the next
  state. The connection \<open>conn\<close> is part of that state. The world also keeps the requests
  issued so far, in order.
\<close>

type_synonym 'd smc_service =
  "'d \<Rightarrow> int \<Rightarrow> SMCKeyData_t \<Rightarrow> SMCKeyData_t \<Rightarrow> kern_return_t \<times> SMCKeyData_t \<times> 'd"

record 'd smc_world =
  device :: 'd
  calls :: "(int \<times> SMCKeyData_t) list"

definition SMCCall ::
  "'d smc_service \<Rightarrow> int \<Rightarrow> SMCKeyData_t \<Rightarrow> SMCKeyData_t \<Rightarrow> 'd smc_world
     \<Rightarrow> kern_return_t \<times> SMCKeyData_t \<times> 'd smc_world" where
  "SMCCall svc index inputStructure outputStructure w =
     (case svc (device w) index inputStructure outputStructure of
        (r, out, d) \<Rightarrow> (r, out, w\<lparr>device := d, calls := calls w @ [(index, inputStructure)]\<rparr>))"

text \<open>
  \<open>SMCReadKey\<close>: the status, the value written through \<open>val\<close> and the world after the call.
\<close>

definition SMCReadKey ::
  "'d smc_service \<Rightarrow> cchar list \<Rightarrow> 'd smc_world
     \<Rightarrow> (kern_return_t \<times> SMCVal_t \<times> 'd smc_world) option" where
  "SMCReadKey svc k w =
     (case smc_strtoul k 4 16 of
        None \<Rightarrow> None
      | Some packed \<Rightarrow>
          let inputStructure = SMCKeyData_zero\<lparr>SMCKeyData_t.key := packed,
                                                data8 := SMC_CMD_READ_KEYINFO\<rparr>
          in case SMCCall svc KERNEL_INDEX_SMC inputStructure SMCKeyData_zero w of
               (res, outputStructure, w1) \<Rightarrow>
                 if res \<noteq> kIOReturnSuccess then Some (res, SMCVal_zero, w1)
                 else
                   let val = SMCVal_zero\<lparr>
                         dataSize := SMCKeyData_keyInfo_t.dataSize (keyInfo outputStructure),
                         dataType :=
                           smc_ultostr (SMCKeyData_keyInfo_t.dataType (keyInfo outputStructure))\<rparr>;
                       inputStructure = inputStructure\<lparr>
                         keyInfo := (keyInfo inputStructure)\<lparr>
                           SMCKeyData_keyInfo_t.dataSize := dataSize val\<rparr>,
                         data8 := SMC_CMD_READ_BYTES\<rparr>
                   in case SMCCall svc KERNEL_INDEX_SMC inputStructure outputStructure w1 of
                        (res, outputStructure, w2) \<Rightarrow>
                          if res \<noteq> kIOReturnSuccess then Some (res, val, w2)
                          else Some (kIOReturnSuccess,
                                     val\<lparr>bytes := SMCKeyData_t.bytes outputStructure\<rparr>, w2))"

section \<open>Sensor reader\<close>

text \<open>\<open>getSMCrpm\<close>; \<open>val.dataSize\<close> is passed to the \<open>int size\<close> of \<open>_strtof\<close>.\<close>

definition getSMCrpm ::
  "'d smc_service \<Rightarrow> cchar list \<Rightarrow> 'd smc_world \<Rightarrow> (fp \<times> 'd smc_world) option" where
  "getSMCrpm svc k w =
     (case SMCReadKey svc k w of
        None \<Rightarrow> None
      | Some (res, val, w') \<Rightarrow>
          if res = kIOReturnSuccess \<and> 0 < dataSize val then
            if strcmp_eq (dataType val) (c_str ''flt '') then
              map_option (\<lambda>f. (f, w')) (float_of_bytes (bytes val))
            else if strcmp_eq (dataType val) (c_str ''fpe2'') then
              map_option (\<lambda>f. (f, w')) (smc_strtof (bytes val) (sint (dataSize val)) 2)
            else Some (Fin (- 1), w')
          else Some (Fin (- 1), w'))"

text \<open>
  \<open>getSMCtemp\<close>: \<open>val.bytes[0] * 256 + (unsigned char)val.bytes[1]\<close> in \<open>int\<close>, then the
  division by \<open>256.0\<close> in \<open>double\<close>.
\<close>

definition sp78_value :: "cchar list \<Rightarrow> fp option" where
  "sp78_value bs =
     (if 2 \<le> size bs
      then Some (fp_div binary64
        (fp_round binary64 (real_of_int (sint (bs ! 0) * 256 + uint (bs ! 1)))) (Fin 256))
      else None)"

definition getSMCtemp ::
  "'d smc_service \<Rightarrow> cchar list \<Rightarrow> 'd smc_world \<Rightarrow> (fp \<times> 'd smc_world) option" where
  "getSMCtemp svc k w =
     (case SMCReadKey svc k w of
        None \<Rightarrow> None
      | Some (res, val, w') \<Rightarrow>
          if res = kIOReturnSuccess \<and> 0 < dataSize val
             \<and> strcmp_eq (dataType val) (c_str ''sp78'')
          then map_option (\<lambda>f. (f, w')) (sp78_value (bytes val))
          else Some (Fin 0, w'))"

section \<open>Fan aggregator\<close>

text \<open>\<open>%d\<close> of an \<open>int\<close>.\<close>

fun dec_digits :: "nat \<Rightarrow> string" where
  "dec_digits n =
     (if n < 10 then [char_of (48 + n)] else dec_digits (n div 10) @ [char_of (48 + n mod 10)])"

declare dec_digits.simps [simp del]

definition sprintf_d :: "int \<Rightarrow> string" where
  "sprintf_d i = (if i < 0 then CHR ''-'' # dec_digits (nat (- i)) else dec_digits (nat i))"

text \<open>
  \<open>sprintf(key, "F%dID", i)\<close> into \<open>UInt32Char_t key\<close>, five bytes: the text and its terminator
  must fit.
\<close>

definition sprintf_key :: "string \<Rightarrow> int \<Rightarrow> string \<Rightarrow> cchar list option" where
  "sprintf_key pre i suf =
     (let s = pre @ sprintf_d i @ suf
      in if size s + 1 \<le> 5 then Some (c_str s) else None)"

text \<open>
  Lines 290 to 292: \<open>cur\<close> is a \<open>double\<close>, \<open>min\<close>, \<open>max\<close> and \<open>pct\<close> are \<open>float\<close>. The numerator
  and the quotient are computed in \<open>double\<close>, the denominator in \<open>float\<close>.
\<close>

definition fan_percent :: "fp \<Rightarrow> fp \<Rightarrow> fp \<Rightarrow> fp" where
  "fan_percent cur mn mx =
     (let pct = fp_convert binary32
                  (fp_div binary64 (fp_sub binary64 cur mn) (fp_sub binary32 mx mn));
          pct = fp_mul binary32 pct (Fin 100)
      in if fp_lt pct (Fin 0) then Fin 0 else pct)"

text \<open>
  The \<open>switch (i)\<close> of lines 294 to 308 on the buffer \<open>fanID\<close>, which is declared outside the
  loop and never initialised: \<open>None\<close> is the buffer nothing has been copied into yet. The
  third label is the character constant \<open>'?'\<close>.
\<close>

definition fan_label :: "int \<Rightarrow> int \<Rightarrow> string option \<Rightarrow> string option" where
  "fan_label nFans i fanID =
     (if i = 0 then (if nFans = 1 then Some ''Main'' else Some ''Left'')
      else if i = 1 then Some ''Right''
      else if i = int (of_char CHR ''?'') then Some ''Other''
      else fanID)"

text \<open>
  A line of output is kept as the arguments of its \<open>printf\<close> that come from the controller;
  the host tag and the time stamp are not part of the model.
\<close>

record fan_line =
  fan_index :: int
  sensor :: "string option"
  rpm :: fp
  percent :: fp

text \<open>
  One pass through the body of the loop: the world and the label buffer after it, and the
  line it printed if it printed one. Each \<open>continue\<close> leaves with no line.
\<close>

definition fan_body ::
  "'d smc_service \<Rightarrow> int \<Rightarrow> int \<Rightarrow> 'd smc_world \<Rightarrow> string option
     \<Rightarrow> ('d smc_world \<times> string option \<times> fan_line option) option" where
  "fan_body svc nFans i w fanID =
     do {
       k \<leftarrow> sprintf_key ''F'' i ''ID'';
       (res, val, w) \<leftarrow> SMCReadKey svc k w;
       if res \<noteq> kIOReturnSuccess then Some (w, fanID, None)
       else do {
         k \<leftarrow> sprintf_key ''F'' i ''Ac'';
         (cur, w) \<leftarrow> getSMCrpm svc k w;
         if fp_lt cur (Fin 0) then Some (w, fanID, None)
         else do {
           k \<leftarrow> sprintf_key ''F'' i ''Mn'';
           (mn, w) \<leftarrow> getSMCrpm svc k w;
           if fp_lt mn (Fin 0) then Some (w, fanID, None)
           else do {
             k \<leftarrow> sprintf_key ''F'' i ''Mx'';
             (mx, w) \<leftarrow> getSMCrpm svc k w;
             if fp_lt mx (Fin 0) then Some (w, fanID, None)
             else
               let pct = fan_percent cur mn mx;
                   fanID = fan_label nFans i fanID
               in Some (w, fanID,
                    if fp_lt (Fin 0) cur
                    then Some \<lparr>fan_index = i, sensor = fanID, rpm = cur, percent = pct\<rparr>
                    else None)
           }
         }
       }
     }"

function fans_loop ::
  "'d smc_service \<Rightarrow> int \<Rightarrow> int \<Rightarrow> 'd smc_world \<Rightarrow> string option \<Rightarrow> fan_line list
     \<Rightarrow> ('d smc_world \<times> fan_line list) option" where
  "fans_loop svc nFans i w fanID out =
     (if i < nFans then
        (case fan_body svc nFans i w fanID of
           None \<Rightarrow> None
         | Some (w', fanID', line) \<Rightarrow>
             fans_loop svc nFans (i + 1) w' fanID' (out @ (case line of None \<Rightarrow> [] | Some l \<Rightarrow> [l])))
      else Some (w, out))"
  by pat_completeness auto
termination
  by (relation "measure (\<lambda>(svc, nFans, i, w, fanID, out). nat (nFans - i))") auto

declare fans_loop.simps [simp del]

text \<open>
  \<open>influxSMCfans\<close>: the lines printed, in order, and the world afterwards. The result of
  \<open>_strtoul\<close> is stored in the \<open>int nFans\<close>.
\<close>

definition influxSMCfans ::
  "'d smc_service \<Rightarrow> 'd smc_world \<Rightarrow> ('d smc_world \<times> fan_line list) option" where
  "influxSMCfans svc w =
     (case SMCReadKey svc (c_str ''FNum'') w of
        None \<Rightarrow> None
      | Some (res, val, w') \<Rightarrow>
          if res = kIOReturnSuccess then
            (case smc_strtoul (bytes val) (sint (dataSize val)) 10 of
               None \<Rightarrow> None
             | Some n \<Rightarrow> fans_loop svc (sint n) 0 w' None [])
          else Some (w', []))"

section \<open>Auxiliary notions for the statements\<close>

text \<open>A real that a \<open>float\<close> holds exactly.\<close>

definition is_float :: "real \<Rightarrow> bool" where
  "is_float x = (fp_round binary32 x = Fin x)"

text \<open>
  The fixed-point decoder in the words of the specification: every byte unsigned, the bytes
  before the last shifted left by \<open>(size - 1 - i) * (8 - e)\<close>, the last shifted right by \<open>e\<close>,
  plus a quarter of its two low bits. It is compared with \<open>smc_strtof\<close>.
\<close>

definition strtof_spec :: "cchar list \<Rightarrow> nat \<Rightarrow> nat \<Rightarrow> real" where
  "strtof_spec str sz e =
     (\<Sum>i \<leftarrow> [0..<sz - 1]. real (unat (str ! i) * 2 ^ ((sz - 1 - i) * (8 - e))))
     + real (unat (str ! (sz - 1)) div 2 ^ e)
     + real (unat (str ! (sz - 1) AND 0x03)) * 0.25"

text \<open>
  Two controllers to run the functions on: one answers every request with the same key
  information and bytes, the other refuses every request with the same status.
\<close>

definition answer_service :: "SMCKeyData_keyInfo_t \<Rightarrow> cchar list \<Rightarrow> unit smc_service" where
  "answer_service info bs d index inputStructure outputStructure =
     (kIOReturnSuccess, outputStructure\<lparr>keyInfo := info, SMCKeyData_t.bytes := bs\<rparr>, d)"

definition refuse_service :: "kern_return_t \<Rightarrow> unit smc_service" where
  "refuse_service r d index inputStructure outputStructure = (r, outputStructure, d)"

text \<open>
  Equality of two floating-point values as \<open>==\<close> compares them: a NaN equals nothing, the two
  zeros are equal. The code does not compare the limits of a fan; the notion serves to state
  what it computes when they are equal.
\<close>

definition fp_eq :: "fp \<Rightarrow> fp \<Rightarrow> bool" where
  "fp_eq a b =
     (if a = NaN \<or> b = NaN then False
      else if fp_is_finite a \<and> fp_is_finite b then fp_val a = fp_val b
      else a = b)"

text \<open>
  A controller that holds a table of keys: it answers a request for a key of the table with
  the key information and the bytes of that key, and refuses any other key with status 1.
  The key requested is the one packed in the input structure.
\<close>

definition key_service ::
  "(cchar list \<times> SMCKeyData_keyInfo_t \<times> cchar list) list \<Rightarrow> unit smc_service" where
  "key_service tab d index inputStructure outputStructure =
     (case map_of tab (smc_ultostr (SMCKeyData_t.key inputStructure)) of
        None \<Rightarrow> (1, outputStructure, d)
      | Some (info, bs) \<Rightarrow>
          (kIOReturnSuccess, outputStructure\<lparr>keyInfo := info, SMCKeyData_t.bytes := bs\<rparr>, d))"

definition fpe2_info :: SMCKeyData_keyInfo_t where
  "fpe2_info = \<lparr>SMCKeyData_keyInfo_t.dataSize = 2, dataType = 0x66706532, dataAttributes = 0\<rparr>"

definition ui8_info :: SMCKeyData_keyInfo_t where
  "ui8_info = \<lparr>SMCKeyData_keyInfo_t.dataSize = 1, dataType = 0x75693820, dataAttributes = 0\<rparr>"

text \<open>The 32 bytes of a value whose first bytes are given.\<close>

definition smc_bytes :: "cchar list \<Rightarrow> cchar list" where
  "smc_bytes bs = bs @ replicate (32 - length bs) 0"

text \<open>
  The four keys of the fan of a given number, with its current, minimum and maximum speed as
  \<open>fpe2\<close> values; a controller with one fan and a controller with three fans that turn at
  3000, between 1000 and 5000.
\<close>

definition fan_table ::
  "string \<Rightarrow> cchar list \<Rightarrow> cchar list \<Rightarrow> cchar list
     \<Rightarrow> (cchar list \<times> SMCKeyData_keyInfo_t \<times> cchar list) list" where
  "fan_table n ac mn mx =
     [(c_str (''F'' @ n @ ''ID''), ui8_info, smc_bytes [0]),
      (c_str (''F'' @ n @ ''Ac''), fpe2_info, smc_bytes ac),
      (c_str (''F'' @ n @ ''Mn''), fpe2_info, smc_bytes mn),
      (c_str (''F'' @ n @ ''Mx''), fpe2_info, smc_bytes mx)]"

definition one_fan :: "cchar list \<Rightarrow> cchar list \<Rightarrow> cchar list \<Rightarrow> unit smc_service" where
  "one_fan ac mn mx =
     key_service ((c_str ''FNum'', ui8_info, smc_bytes [1]) # fan_table ''0'' ac mn mx)"

definition three_fans :: "unit smc_service" where
  "three_fans = key_service ((c_str ''FNum'', ui8_info, smc_bytes [3])
     # fan_table ''0'' [0x2E, 0xE0] [0x0F, 0xA0] [0x4E, 0x20]
     @ fan_table ''1'' [0x2E, 0xE0] [0x0F, 0xA0] [0x4E, 0x20]
     @ fan_table ''2'' [0x2E, 0xE0] [0x0F, 0xA0] [0x4E, 0x20])"

section \<open>Evaluation\<close>

lemmas fp_eval = fp_round_def binary32_def binary64_def ilog2_def round_half_even_def bitlen_def
  compute_floorlog Let_def fp_add_def fp_sub_def fp_mul_def fp_div_def fp_lt_def int_to_fp_def
  fp_zero_def fp_inf_def

lemmas smc_eval = SMCReadKey_def SMCCall_def Let_def answer_service_def refuse_service_def
  smc_strtoul_def strtoul_loop.simps char_at_def shl_int_def shr_int_def c_str_def
  SMCKeyData_zero_def SMCVal_zero_def smc_ultostr_def kIOReturnSuccess_def KERNEL_INDEX_SMC_def
  SMC_CMD_READ_KEYINFO_def SMC_CMD_READ_BYTES_def strcmp_eq_def

section \<open>Properties of the key codec\<close>

lemma byte_high_bit: "8 \<le> n \<Longrightarrow> \<not> bit (x :: 8 word) n"
  by (auto dest: bit_imp_le_length)

lemma ascii_not_bit7: "(c :: 8 word) < 0x80 \<Longrightarrow> \<not> bit c 7"
proof -
  assume "c < 0x80"
  then have "unat c < 2 ^ 7" by (simp add: word_less_nat_alt)
  then have "take_bit 7 (unat c) = unat c" by (simp only: take_bit_nat_eq_self)
  then have "bit (unat c) 7 = bit (take_bit 7 (unat c)) 7" by simp
  also have "\<dots> = False" by (simp only: bit_take_bit_iff) simp
  finally show "\<not> bit c 7" by (simp add: bit_unsigned_iff)
qed

lemma scast_ascii: "(c :: 8 word) < 0x80 \<Longrightarrow> (scast c :: 32 word) = ucast c"
  by (rule bit_word_eqI)
    (auto simp add: bit_word_scast_iff bit_ucast_iff byte_high_bit dest: ascii_not_bit7)

text \<open>The four shifted bytes do not overlap, so adding them is the same as or-ing them.\<close>

lemma pack4_or:
  fixes a b c d :: "8 word"
  shows "push_bit 24 (ucast a :: 32 word) + push_bit 16 (ucast b) + push_bit 8 (ucast c) + ucast d
       = ((push_bit 24 (ucast a) OR push_bit 16 (ucast b)) OR push_bit 8 (ucast c)) OR ucast d"
proof -
  have 1: "push_bit 24 (ucast a :: 32 word) + push_bit 16 (ucast b)
         = push_bit 24 (ucast a) OR push_bit 16 (ucast b)"
    by (rule disjunctive_add) (simp add: bit_push_bit_iff bit_ucast_iff byte_high_bit)
  have 2: "(push_bit 24 (ucast a :: 32 word) OR push_bit 16 (ucast b)) + push_bit 8 (ucast c)
         = (push_bit 24 (ucast a) OR push_bit 16 (ucast b)) OR push_bit 8 (ucast c)"
    by (rule disjunctive_add)
      (auto simp add: bit_or_iff bit_push_bit_iff bit_ucast_iff byte_high_bit)
  have 3: "((push_bit 24 (ucast a :: 32 word) OR push_bit 16 (ucast b)) OR push_bit 8 (ucast c))
             + ucast d
         = ((push_bit 24 (ucast a) OR push_bit 16 (ucast b)) OR push_bit 8 (ucast c)) OR ucast d"
    by (rule disjunctive_add)
      (auto simp add: bit_or_iff bit_push_bit_iff bit_ucast_iff byte_high_bit)
  show ?thesis by (simp only: 1 2 3)
qed

lemma unpack4:
  fixes a b c d :: "8 word"
  defines "v \<equiv> ((push_bit 24 (ucast a :: 32 word) OR push_bit 16 (ucast b))
                    OR push_bit 8 (ucast c)) OR ucast d"
  shows "ucast (drop_bit 24 v) = a" and "ucast (drop_bit 16 v) = b"
    and "ucast (drop_bit 8 v) = c" and "ucast v = d"
  unfolding v_def
  by (rule bit_word_eqI;
      simp add: bit_ucast_iff bit_drop_bit_eq bit_or_iff bit_push_bit_iff byte_high_bit)+

text \<open>The packing loop on a buffer that starts with four ASCII characters.\<close>

lemma strtoul_ascii4:
  fixes a b c d :: "8 word"
  assumes "a < 0x80" "b < 0x80" "c < 0x80" "d < 0x80"
  shows "smc_strtoul (a # b # c # d # rest) 4 16
       = Some (push_bit 24 (ucast a) + push_bit 16 (ucast b) + push_bit 8 (ucast c) + ucast d)"
  using assms
  by (simp add: smc_strtoul_def strtoul_loop.simps char_at_def shl_int_def scast_ascii)

text \<open>
  C1. For every key of four ASCII characters, held in its five-byte buffer with the
  terminator, packing it with \<open>_strtoul(key, 4, 16)\<close> returns a value, and \<open>_ultostr\<close> of that
  value writes the same five bytes back.
\<close>

theorem key_roundtrip:
  assumes "length k = 4" and "\<forall>c \<in> set k. c < 0x80"
  shows "\<exists>v. smc_strtoul (k @ [0]) 4 16 = Some v \<and> smc_ultostr v = k @ [0]"
proof -
  from assms(1) obtain a b c d where k: "k = [a, b, c, d]"
    by (auto simp add: length_Suc_conv numeral_eq_Suc)
  with assms(2) have asc: "a < 0x80" "b < 0x80" "c < 0x80" "d < 0x80" by simp_all
  let ?v = "push_bit 24 (ucast a :: 32 word) + push_bit 16 (ucast b) + push_bit 8 (ucast c)
             + ucast d"
  have enc: "smc_strtoul (k @ [0]) 4 16 = Some ?v"
    unfolding k using strtoul_ascii4 [OF asc, of "[0]"] by simp
  have dec: "smc_ultostr ?v = k @ [0]"
    unfolding k smc_ultostr_def by (simp only: pack4_or unpack4) simp
  from enc dec show ?thesis by blast
qed

theorem key_roundtrip_witness:
  "length [0x54, 0x43, 0x30, 0x50 :: 8 word] = 4 \<and>
   list_all (\<lambda>c. c < 0x80) [0x54, 0x43, 0x30, 0x50 :: 8 word] \<and>
   (\<exists>v. smc_strtoul ([0x54, 0x43, 0x30, 0x50] @ [0]) 4 16 = Some v \<and>
        smc_ultostr v = [0x54, 0x43, 0x30, 0x50] @ [0])"
  using key_roundtrip [of "[0x54, 0x43, 0x30, 0x50]"] by simp

text \<open>
  C8. Packing the key \<open>"TC0P"\<close> with \<open>_strtoul(key, 4, 16)\<close> gives \<open>0x54433050\<close>.
\<close>

theorem encode_TC0P: "smc_strtoul (c_str ''TC0P'') 4 16 = Some 0x54433050"
  by (simp add: smc_strtoul_def c_str_def strtoul_loop.simps char_at_def shl_int_def)

section \<open>Rounding\<close>

lemma ilog2_lower:
  assumes "0 < y"
  shows "2 powi (ilog2 y) \<le> y"
proof (cases "1 \<le> y")
  case True
  define n where "n = \<lfloor>y\<rfloor>"
  have n1: "1 \<le> n" using True by (simp add: n_def)
  then have b: "2 ^ nat (bitlen n - 1) \<le> n" using bitlen_bounds [of n] by simp
  have b1: "1 \<le> bitlen n" using n1 by (simp add: bitlen_ge_iff_power)
  have "(2::real) powi (bitlen n - 1) = 2 ^ nat (bitlen n - 1)"
    using b1 by (simp add: power_int_def)
  also have "\<dots> = real_of_int (2 ^ nat (bitlen n - 1))" by simp
  also have "\<dots> \<le> real_of_int n" using b by (simp only: of_int_le_iff)
  also have "\<dots> \<le> y" by (simp add: n_def)
  finally show ?thesis using True by (simp add: ilog2_def n_def)
next
  case False
  define c where "c = \<lceil>1 / y\<rceil>"
  define b where "b = bitlen (c - 1)"
  have "1 < 1 / y" using False assms by simp
  then have c2: "2 \<le> c" unfolding c_def by linarith
  then have "c - 1 < 2 ^ nat b" using bitlen_bounds [of "c - 1"] by (simp add: b_def)
  then have "c \<le> 2 ^ nat b" by simp
  then have "real_of_int c \<le> real_of_int (2 ^ nat b)" by (simp only: of_int_le_iff)
  also have "\<dots> = 2 ^ nat b" by simp
  finally have "real_of_int c \<le> 2 ^ nat b" .
  moreover have "1 / y \<le> real_of_int c" by (simp add: c_def)
  ultimately have le: "1 / y \<le> 2 ^ nat b" by (rule order_trans [rotated])
  have b0: "0 \<le> b" by (simp add: b_def bitlen_nonneg)
  have "(2::real) powi (- b) = 1 / 2 ^ nat b"
    using b0 by (simp add: power_int_minus power_int_def inverse_eq_divide power_one_over)
  also have "\<dots> \<le> y"
    using le assms by (simp add: field_simps)
  finally show ?thesis using False by (simp add: ilog2_def c_def b_def)
qed

lemma round_half_even_of_int: "round_half_even (of_int n) = n"
  by (simp add: round_half_even_def)

lemma round_half_even_ge_floor: "\<lfloor>y\<rfloor> \<le> round_half_even y"
  by (simp add: round_half_even_def Let_def)

lemma round_half_even_le: "real_of_int (round_half_even y) \<le> y + 1"
proof -
  have "round_half_even y \<le> \<lfloor>y\<rfloor> + 1" by (simp add: round_half_even_def Let_def)
  then have "real_of_int (round_half_even y) \<le> real_of_int (\<lfloor>y\<rfloor> + 1)"
    by (simp only: of_int_le_iff)
  also have "\<dots> \<le> y + 1" by simp
  finally show ?thesis .
qed

lemma fp_round_exact:
  assumes x: "x = real_of_int n * 2 powi k"
    and n: "\<bar>n\<bar> < 2 ^ prec fmt"
    and k: "qmin fmt \<le> k"
    and hi: "\<bar>x\<bar> < 2 powi (emax fmt)"
  shows "fp_round fmt x = Fin x"
proof (cases "x = 0")
  case True
  then show ?thesis by (simp add: fp_round_def)
next
  case False
  define q where "q = max (qmin fmt) (ilog2 \<bar>x\<bar> - int (prec fmt) + 1)"
  have pos: "0 < \<bar>x\<bar>" using False by simp
  have qk: "q \<le> k"
  proof (rule ccontr)
    assume "\<not> q \<le> k"
    with k have "k + int (prec fmt) \<le> ilog2 \<bar>x\<bar>" by (simp add: q_def max_def split: if_splits)
    then have "(2::real) powi (k + int (prec fmt)) \<le> 2 powi (ilog2 \<bar>x\<bar>)"
      by (intro power_int_increasing) simp_all
    also have "\<dots> \<le> \<bar>x\<bar>" using pos by (rule ilog2_lower)
    also have "\<dots> = real_of_int \<bar>n\<bar> * 2 powi k" by (simp add: x abs_mult)
    finally have "(2::real) powi k * 2 ^ prec fmt \<le> real_of_int \<bar>n\<bar> * 2 powi k"
      by (simp add: power_int_add)
    then have "(2::real) ^ prec fmt \<le> real_of_int \<bar>n\<bar>" by simp
    moreover have "real_of_int \<bar>n\<bar> < real_of_int (2 ^ prec fmt)"
      using n by (simp only: of_int_less_iff)
    ultimately show False by simp
  qed
  define j where "j = nat (k - q)"
  have kq: "k = q + int j" using qk by (simp add: j_def)
  have "\<bar>x\<bar> / 2 powi q = real_of_int \<bar>n\<bar> * 2 powi k / 2 powi q" by (simp add: x abs_mult)
  also have "\<dots> = real_of_int \<bar>n\<bar> * 2 ^ j" by (simp add: kq power_int_add)
  also have "\<dots> = real_of_int (\<bar>n\<bar> * 2 ^ j)" by simp
  finally have quo: "\<bar>x\<bar> / 2 powi q = real_of_int (\<bar>n\<bar> * 2 ^ j)" .
  have m: "round_half_even (\<bar>x\<bar> / 2 powi q) = \<bar>n\<bar> * 2 ^ j"
    by (simp only: quo round_half_even_of_int)
  have r: "real_of_int (\<bar>n\<bar> * 2 ^ j) * 2 powi q = \<bar>x\<bar>"
    using quo by (simp add: field_simps)
  have n0: "n \<noteq> 0" using False x by auto
  have "fp_round fmt x =
      (if 2 powi (emax fmt) \<le> \<bar>x\<bar> then (if x < 0 then NInf else PInf)
       else if \<bar>n\<bar> * 2 ^ j = 0 then (if x < 0 then NZero else Fin 0)
       else Fin (if x < 0 then - \<bar>x\<bar> else \<bar>x\<bar>))"
    using False by (simp only: fp_round_def Let_def q_def [symmetric] m r if_False)
  also have "\<dots> = Fin x" using hi n0 by simp
  finally show ?thesis .
qed

lemma ilog2_upper:
  assumes "0 < y"
  shows "y < 2 powi (ilog2 y + 1)"
proof (cases "1 \<le> y")
  case True
  define n where "n = \<lfloor>y\<rfloor>"
  have n1: "1 \<le> n" using True by (simp add: n_def)
  then have b: "n < 2 ^ nat (bitlen n)" using bitlen_bounds [of n] by simp
  then have "n + 1 \<le> 2 ^ nat (bitlen n)" by simp
  then have "real_of_int (n + 1) \<le> real_of_int (2 ^ nat (bitlen n))" by (simp only: of_int_le_iff)
  also have "\<dots> = 2 ^ nat (bitlen n)" by simp
  also have "\<dots> = 2 powi (bitlen n)" by (simp add: power_int_def bitlen_nonneg)
  finally have "real_of_int (n + 1) \<le> 2 powi (bitlen n)" .
  moreover have "y < real_of_int (n + 1)" unfolding n_def by linarith
  ultimately have "y < 2 powi (bitlen n)" by (rule less_le_trans [rotated])
  then show ?thesis using True by (simp add: ilog2_def n_def)
next
  case False
  define c where "c = \<lceil>1 / y\<rceil>"
  define b where "b = bitlen (c - 1)"
  have "1 < 1 / y" using False assms by simp
  then have c2: "2 \<le> c" unfolding c_def by linarith
  then have lo: "2 ^ nat (b - 1) \<le> c - 1" using bitlen_bounds [of "c - 1"] by (simp add: b_def)
  have b1: "1 \<le> b" using c2 by (simp add: b_def bitlen_ge_iff_power)
  have "real_of_int (2 ^ nat (b - 1)) \<le> real_of_int (c - 1)" using lo by (simp only: of_int_le_iff)
  moreover have "real_of_int (c - 1) < 1 / y" unfolding c_def by linarith
  ultimately have "real_of_int (2 ^ nat (b - 1)) < 1 / y" by (rule le_less_trans)
  then have lt: "2 ^ nat (b - 1) < 1 / y" by simp
  have "y < 1 / 2 ^ nat (b - 1)"
    using lt assms by (simp add: field_simps)
  also have "\<dots> = 2 powi (- (b - 1))"
    using b1 by (simp add: power_int_minus power_int_def inverse_eq_divide power_one_over)
  finally show ?thesis using False by (simp add: ilog2_def c_def b_def)
qed

lemma round_half_even_nonneg: "0 \<le> y \<Longrightarrow> 0 \<le> round_half_even y"
  using round_half_even_ge_floor [of y] by (simp add: order_trans [of 0 "\<lfloor>y\<rfloor>"])

lemma round_half_even_pos: "1 \<le> y \<Longrightarrow> 1 \<le> round_half_even y"
  using round_half_even_ge_floor [of y] by (simp add: order_trans [of 1 "\<lfloor>y\<rfloor>"])

text \<open>The three shapes of a rounded non-zero real.\<close>

lemma fp_round_shape:
  assumes "x \<noteq> 0"
  shows "(\<exists>r. 0 < r \<and> fp_round fmt x = Fin (if x < 0 then - r else r))
       \<or> fp_round fmt x = fp_zero (x < 0) \<or> fp_round fmt x = fp_inf (x < 0)"
proof -
  define q where "q = max (qmin fmt) (ilog2 \<bar>x\<bar> - int (prec fmt) + 1)"
  define m where "m = round_half_even (\<bar>x\<bar> / 2 powi q)"
  define r where "r = real_of_int m * 2 powi q"
  have e: "fp_round fmt x =
      (if 2 powi (emax fmt) \<le> r then (if x < 0 then NInf else PInf)
       else if m = 0 then (if x < 0 then NZero else Fin 0)
       else Fin (if x < 0 then - r else r))"
    using assms by (simp only: fp_round_def Let_def q_def [symmetric] m_def [symmetric]
      r_def [symmetric] if_False)
  have "0 \<le> m" unfolding m_def by (rule round_half_even_nonneg) simp
  then have "m \<noteq> 0 \<Longrightarrow> 0 < r" by (simp add: r_def)
  then show ?thesis unfolding e by (auto simp add: fp_zero_def fp_inf_def)
qed

lemma fp_round_not_NaN: "fp_round fmt x \<noteq> NaN"
proof (cases "x = 0")
  case True
  then show ?thesis by (simp add: fp_round_def)
next
  case False
  from fp_round_shape [OF this, of fmt] show ?thesis
    by (auto simp add: fp_zero_def fp_inf_def split: if_splits)
qed

lemma fp_round_sign: "x \<noteq> 0 \<Longrightarrow> fp_sign (fp_round fmt x) = (x < 0)"
  using fp_round_shape [of x fmt] by (auto simp add: fp_zero_def fp_inf_def split: if_splits)

lemma fp_round_nonzero:
  assumes "2 powi (qmin fmt) \<le> \<bar>x\<bar>" and "0 < prec fmt"
  shows "\<not> fp_is_zero (fp_round fmt x)"
proof -
  define q where "q = max (qmin fmt) (ilog2 \<bar>x\<bar> - int (prec fmt) + 1)"
  define m where "m = round_half_even (\<bar>x\<bar> / 2 powi q)"
  define r where "r = real_of_int m * 2 powi q"
  have pos: "0 < \<bar>x\<bar>" using assms(1) by (rule less_le_trans [rotated]) simp
  then have x0: "x \<noteq> 0" by simp
  have e: "fp_round fmt x =
      (if 2 powi (emax fmt) \<le> r then (if x < 0 then NInf else PInf)
       else if m = 0 then (if x < 0 then NZero else Fin 0)
       else Fin (if x < 0 then - r else r))"
    using x0 by (simp only: fp_round_def Let_def q_def [symmetric] m_def [symmetric]
      r_def [symmetric] if_False)
  have "(2::real) powi (ilog2 \<bar>x\<bar> - int (prec fmt) + 1) \<le> 2 powi (ilog2 \<bar>x\<bar>)"
    using assms(2) by (intro power_int_increasing) simp_all
  also have "\<dots> \<le> \<bar>x\<bar>" using pos by (rule ilog2_lower)
  finally have "(2::real) powi q \<le> \<bar>x\<bar>" using assms(1) by (simp add: q_def max_def)
  then have "1 \<le> \<bar>x\<bar> / 2 powi q" by (simp add: field_simps)
  then have m1: "1 \<le> m" unfolding m_def by (rule round_half_even_pos)
  then have "0 < r" by (simp add: r_def)
  with m1 show ?thesis unfolding e by auto
qed

lemma fp_round_finite:
  assumes "\<bar>x\<bar> < 2 powi (emax fmt - 1)" and "qmin fmt < emax fmt" and "0 < prec fmt"
  shows "fp_is_finite (fp_round fmt x)"
proof (cases "x = 0")
  case True
  then show ?thesis by (simp add: fp_round_def)
next
  case False
  define q where "q = max (qmin fmt) (ilog2 \<bar>x\<bar> - int (prec fmt) + 1)"
  define m where "m = round_half_even (\<bar>x\<bar> / 2 powi q)"
  define r where "r = real_of_int m * 2 powi q"
  have pos: "0 < \<bar>x\<bar>" using False by simp
  have e: "fp_round fmt x =
      (if 2 powi (emax fmt) \<le> r then (if x < 0 then NInf else PInf)
       else if m = 0 then (if x < 0 then NZero else Fin 0)
       else Fin (if x < 0 then - r else r))"
    using False by (simp only: fp_round_def Let_def q_def [symmetric] m_def [symmetric]
      r_def [symmetric] if_False)
  have "(2::real) powi (ilog2 \<bar>x\<bar> - int (prec fmt) + 1) \<le> 2 powi (ilog2 \<bar>x\<bar>)"
    using assms(3) by (intro power_int_increasing) simp_all
  also have "\<dots> \<le> \<bar>x\<bar>" using pos by (rule ilog2_lower)
  also have "\<dots> < 2 powi (emax fmt - 1)" by (rule assms(1))
  finally have a: "(2::real) powi (ilog2 \<bar>x\<bar> - int (prec fmt) + 1) < 2 powi (emax fmt - 1)" .
  have b: "(2::real) powi (qmin fmt) \<le> 2 powi (emax fmt - 1)"
    using assms(2) by (intro power_int_increasing) simp_all
  have q: "(2::real) powi q \<le> 2 powi (emax fmt - 1)"
    using a b by (simp add: q_def max_def)
  have "r \<le> (\<bar>x\<bar> / 2 powi q + 1) * 2 powi q"
    unfolding r_def m_def by (intro mult_right_mono round_half_even_le) simp
  also have "\<dots> = \<bar>x\<bar> + 2 powi q" by (simp add: field_simps)
  also have "\<dots> < 2 powi (emax fmt - 1) + 2 powi (emax fmt - 1)"
    using assms(1) q by (rule add_less_le_mono)
  also have "\<dots> = 2 powi (emax fmt)"
    using power_int_add_1 [of "2::real" "emax fmt - 1"] by simp
  finally have "r < 2 powi (emax fmt)" .
  then show ?thesis unfolding e by simp
qed

lemma is_float_repr:
  assumes "is_float x"
  shows "\<exists>n k. x = real_of_int n * 2 powi k \<and> \<bar>n\<bar> < 2 ^ 24 \<and> - 149 \<le> k \<and> \<bar>x\<bar> < 2 powi 128"
proof (cases "x = 0")
  case True
  then have "x = real_of_int 0 * 2 powi 0 \<and> \<bar>0::int\<bar> < 2 ^ 24 \<and> - 149 \<le> (0::int) \<and> \<bar>x\<bar> < 2 powi 128"
    by simp
  then show ?thesis by blast
next
  case False
  define q where "q = max (- 149) (ilog2 \<bar>x\<bar> - 23)"
  define m where "m = round_half_even (\<bar>x\<bar> / 2 powi q)"
  define r where "r = real_of_int m * 2 powi q"
  have pos: "0 < \<bar>x\<bar>" using False by simp
  have q': "max (qmin binary32) (ilog2 \<bar>x\<bar> - int (prec binary32) + 1) = q"
    by (simp add: q_def binary32_def)
  have e: "fp_round binary32 x =
      (if 2 powi (emax binary32) \<le> r then (if x < 0 then NInf else PInf)
       else if m = 0 then (if x < 0 then NZero else Fin 0)
       else Fin (if x < 0 then - r else r))"
    using False by (simp only: fp_round_def Let_def q' m_def [symmetric] r_def [symmetric] if_False)
  from assms have "fp_round binary32 x = Fin x" by (simp add: is_float_def)
  with e False have r: "r < 2 powi 128" and rx: "(if x < 0 then - r else r) = x"
    by (auto simp add: binary32_def split: if_splits)
  from rx have ax: "\<bar>x\<bar> = r" by (auto split: if_splits)
  have x: "x = real_of_int (if x < 0 then - m else m) * 2 powi q"
    using rx by (auto simp add: r_def split: if_splits)
  have "\<bar>x\<bar> < 2 powi (ilog2 \<bar>x\<bar> + 1)" using pos by (rule ilog2_upper)
  also have "\<dots> \<le> 2 powi (q + 24)" by (intro power_int_increasing) (simp_all add: q_def)
  also have "\<dots> = 2 powi q * 2 ^ 24" by (simp add: power_int_add)
  finally have "real_of_int m * 2 powi q < 2 ^ 24 * 2 powi q" by (simp add: ax r_def mult.commute)
  then have "real_of_int m < 2 ^ 24" by simp
  then have m24: "m < 2 ^ 24" by simp
  have m0: "0 \<le> m" unfolding m_def by (rule round_half_even_nonneg) simp
  have "\<bar>if x < 0 then - m else m\<bar> < 2 ^ 24" using m0 m24 by simp
  moreover have "- 149 \<le> q" by (simp add: q_def)
  moreover have "\<bar>x\<bar> < 2 powi 128" using r ax by simp
  ultimately show ?thesis using x by blast
qed

lemma is_float_double: "is_float x \<Longrightarrow> fp_round binary64 x = Fin x"
proof -
  assume "is_float x"
  then obtain n k where x: "x = real_of_int n * 2 powi k" and n: "\<bar>n\<bar> < 2 ^ 24"
    and k: "- 149 \<le> k" and b: "\<bar>x\<bar> < 2 powi 128"
    using is_float_repr by blast
  have "(2::int) ^ 24 \<le> 2 ^ 53" by simp
  with n have n': "\<bar>n\<bar> < 2 ^ prec binary64" by (simp add: binary64_def)
  have k': "qmin binary64 \<le> k" using k by (simp add: binary64_def)
  have "(2::real) powi 128 \<le> 2 powi 1024" by (intro power_int_increasing) simp_all
  with b have b': "\<bar>x\<bar> < 2 powi (emax binary64)" by (simp add: binary64_def)
  from x n' k' b' show ?thesis by (rule fp_round_exact)
qed

lemma is_float_grid:
  assumes "is_float x"
  shows "\<exists>n. x = real_of_int n * 2 powi (- 149)"
proof -
  from assms obtain n k where x: "x = real_of_int n * 2 powi k" and k: "- 149 \<le> k"
    using is_float_repr by blast
  define j where "j = nat (k + 149)"
  have kj: "k = int j + (- 149)" using k by (simp add: j_def)
  have "x = real_of_int n * (2 ^ j * 2 powi (- 149))"
    unfolding x by (subst kj, subst power_int_add) simp_all
  also have "\<dots> = real_of_int (n * 2 ^ j) * 2 powi (- 149)" by simp
  finally show ?thesis by blast
qed

lemma is_float_diff:
  assumes "is_float a" and "is_float b" and "a \<noteq> b"
  shows "2 powi (- 149) \<le> \<bar>a - b\<bar>" and "\<bar>a - b\<bar> < 2 powi 129"
proof -
  define c :: real where "c = 2 powi (- 149)"
  have c0: "0 < c" by (simp add: c_def)
  from assms(1) obtain n where a: "a = real_of_int n * c"
    unfolding c_def using is_float_grid by blast
  from assms(2) obtain m where b: "b = real_of_int m * c"
    unfolding c_def using is_float_grid by blast
  have "n \<noteq> m" using assms(3) a b by auto
  then have "1 \<le> \<bar>n - m\<bar>" by simp
  then have "1 \<le> real_of_int \<bar>n - m\<bar>" by linarith
  then have "1 * c \<le> real_of_int \<bar>n - m\<bar> * c"
    using c0 by (intro mult_right_mono) simp_all
  also have "\<dots> = \<bar>a - b\<bar>" using c0 by (simp add: a b abs_mult flip: left_diff_distrib)
  finally show "2 powi (- 149) \<le> \<bar>a - b\<bar>" by (simp add: c_def)
  from assms(1) have "\<bar>a\<bar> < 2 powi 128" using is_float_repr by blast
  moreover from assms(2) have "\<bar>b\<bar> < 2 powi 128" using is_float_repr by blast
  ultimately have "\<bar>a - b\<bar> < 2 powi 128 + 2 powi 128" by linarith
  also have "\<dots> = 2 powi 129" by simp
  finally show "\<bar>a - b\<bar> < 2 powi 129" .
qed

text \<open>The difference of two floats, computed in double: finite, not zero, of the right sign.\<close>

lemma double_diff:
  assumes "is_float a" and "is_float b" and "a \<noteq> b"
  shows "\<exists>r. fp_sub binary64 (Fin a) (Fin b) = Fin r \<and> r \<noteq> 0 \<and> (r < 0) = (a < b)"
proof -
  have s: "fp_sub binary64 (Fin a) (Fin b) = fp_round binary64 (a - b)"
    using assms(3) by (simp add: fp_sub_def fp_add_def)
  have "(2::real) powi (- 1074) \<le> 2 powi (- 149)" by (intro power_int_increasing) simp_all
  also have "\<dots> \<le> \<bar>a - b\<bar>" using assms by (rule is_float_diff)
  finally have nz: "\<not> fp_is_zero (fp_round binary64 (a - b))"
    by (intro fp_round_nonzero) (simp_all add: binary64_def)
  have "\<bar>a - b\<bar> < 2 powi 129" using assms by (rule is_float_diff)
  also have "(2::real) powi 129 \<le> 2 powi 1023" by (intro power_int_increasing) simp_all
  finally have fin: "fp_is_finite (fp_round binary64 (a - b))"
    by (intro fp_round_finite) (simp_all add: binary64_def)
  have sg: "fp_sign (fp_round binary64 (a - b)) = (a - b < 0)"
    using assms(3) by (intro fp_round_sign) simp
  from nz fin sg show ?thesis
    unfolding s by (cases "fp_round binary64 (a - b)") auto
qed

section \<open>Properties of the fixed-point decoder\<close>

lemma sint_shl6: "sint (push_bit 6 (scast (b :: 8 word) :: 32 word)) = sint b * 64"
proof -
  have s: "sint (scast b :: 32 word) = sint b" by (rule sint_up_scast) (simp add: is_up)
  have lo: "- 128 \<le> sint b" using sint_ge [of b] by simp
  have hi: "sint b < 128" using sint_lt [of b] by simp
  have "sint (push_bit 6 (scast b :: 32 word)) = signed_take_bit 31 (push_bit 6 (sint b))"
    by (simp add: signed_push_bit_eq s)
  also have "\<dots> = push_bit 6 (sint b)"
    using lo hi by (intro signed_take_bit_int_eq_self) (simp_all add: push_bit_eq_mult)
  finally show ?thesis by (simp add: push_bit_eq_mult)
qed

lemma scast_and_ff: "(scast (b :: 8 word) :: 32 word) AND 0xFF = ucast b"
proof -
  have m: "(0xFF :: 32 word) = mask 8" by (simp add: mask_eq_exp_minus_1)
  show ?thesis
    unfolding m
    by (rule bit_word_eqI)
      (auto simp add: bit_and_iff bit_mask_iff bit_word_scast_iff bit_ucast_iff
        dest: bit_imp_le_length)
qed

lemma sint_ucast_byte: "sint (ucast (b :: 8 word) :: 32 word) = uint b"
proof -
  have "uint b < 2 ^ 8" using uint_lt2p [of b] by simp
  then have "uint b < 2 ^ 31" by simp
  moreover have "- (2 ^ 31) \<le> uint b" by (rule order_trans [of _ 0]) simp_all
  ultimately have "signed_take_bit 31 (uint b) = uint b" by (intro signed_take_bit_int_eq_self)
  then show ?thesis by (simp add: signed_ucast_eq)
qed

lemma sint_last_shr2:
  "sint (signed_drop_bit 2 ((scast (b :: 8 word) :: 32 word) AND 0xFF)) = uint b div 4"
  by (simp add: sint_signed_drop_bit_eq scast_and_ff sint_ucast_byte drop_bit_eq_div)

lemma sint_last_and3: "sint ((scast (b :: 8 word) :: 32 word) AND 0x03) = uint b mod 4"
proof -
  have m: "(0x03 :: 32 word) = mask 2" by (simp add: mask_eq_exp_minus_1)
  have e: "(scast b :: 32 word) AND mask 2 = ucast (take_bit 2 b)"
    by (rule bit_word_eqI)
      (auto simp add: bit_and_iff bit_mask_iff bit_word_scast_iff bit_ucast_iff bit_take_bit_iff
        dest: bit_imp_le_length)
  have "sint (ucast (take_bit 2 b) :: 32 word) = uint (take_bit 2 b)" by (rule sint_ucast_byte)
  also have "\<dots> = take_bit 2 (uint b)" by (rule unsigned_take_bit_eq)
  also have "\<dots> = uint b mod 4" by (simp add: take_bit_eq_mod)
  finally show ?thesis unfolding m e .
qed

lemma fp_round_quarters32:
  assumes "\<bar>n\<bar> < 2 ^ 24"
  shows "fp_round binary32 (real_of_int n / 4) = Fin (real_of_int n / 4)"
proof (rule fp_round_exact [where n = n and k = "- 2"])
  show "real_of_int n / 4 = real_of_int n * 2 powi (- 2)"
    by (simp add: power_int_minus inverse_eq_divide)
  show "\<bar>n\<bar> < 2 ^ prec binary32" using assms by (simp add: binary32_def)
  show "qmin binary32 \<le> - 2" by (simp add: binary32_def)
  have "\<bar>real_of_int n / 4\<bar> \<le> real_of_int \<bar>n\<bar>" by simp
  also have "\<dots> < 2 ^ 24" using assms by simp
  also have "(2::real) ^ 24 = 2 powi 24" by simp
  also have "\<dots> \<le> 2 powi 128" by (intro power_int_increasing) simp_all
  finally show "\<bar>real_of_int n / 4\<bar> < 2 powi emax binary32" by (simp add: binary32_def)
qed

lemma fp_round_quarters64:
  assumes "\<bar>n\<bar> < 2 ^ 24"
  shows "fp_round binary64 (real_of_int n / 4) = Fin (real_of_int n / 4)"
proof (rule fp_round_exact [where n = n and k = "- 2"])
  show "real_of_int n / 4 = real_of_int n * 2 powi (- 2)"
    by (simp add: power_int_minus inverse_eq_divide)
  have "(2::int) ^ 24 \<le> 2 ^ 53" by simp
  with assms show "\<bar>n\<bar> < 2 ^ prec binary64" by (simp add: binary64_def)
  show "qmin binary64 \<le> - 2" by (simp add: binary64_def)
  have "\<bar>real_of_int n / 4\<bar> \<le> real_of_int \<bar>n\<bar>" by simp
  also have "\<dots> < 2 ^ 24" using assms by simp
  also have "(2::real) ^ 24 = 2 powi 24" by simp
  also have "\<dots> \<le> 2 powi 1024" by (intro power_int_increasing) simp_all
  finally show "\<bar>real_of_int n / 4\<bar> < 2 powi emax binary64" by (simp add: binary64_def)
qed

lemma fp_add_exact:
  "fp_round fmt (a + b) = Fin (a + b) \<Longrightarrow> fp_add fmt (Fin a) (Fin b) = Fin (a + b)"
  by (simp add: fp_add_def)

text \<open>The value of an \<open>fpe2\<close> pair as the code decodes it.\<close>

lemma strtof_fpe2:
  "smc_strtof [b0, b1] 2 2
     = Some (Fin (real_of_int (sint b0 * 64 + uint b1 div 4) + real_of_int (uint b1 mod 4) / 4))"
proof -
  define A where "A = sint b0 * 64"
  define B where "B = uint b1 div 4"
  define F where "F = uint b1 mod 4"
  have lo: "- 128 \<le> sint b0" using sint_ge [of b0] by simp
  have hi: "sint b0 < 128" using sint_lt [of b0] by simp
  have u0: "0 \<le> uint b1" by simp
  have u1: "uint b1 < 256" using uint_lt2p [of b1] by simp
  have A: "- 8192 \<le> A" "A \<le> 8128" using lo hi unfolding A_def by linarith+
  have B: "0 \<le> B" "B \<le> 63" using u0 u1 unfolding B_def by arith+
  have F: "0 \<le> F" "F \<le> 3" using u0 unfolding F_def by arith+
  have q: "\<And>n :: int. real_of_int n = real_of_int (4 * n) / 4" by simp
  have rA: "fp_round binary32 (real_of_int A) = Fin (real_of_int A)"
    using A by (subst (1 2) q, intro fp_round_quarters32) simp
  have vAB: "real_of_int A + real_of_int B = real_of_int (4 * (A + B)) / 4" by simp
  have nAB: "\<bar>4 * (A + B)\<bar> < 2 ^ 24" using A B by simp
  have rAB: "fp_round binary32 (real_of_int A + real_of_int B) = Fin (real_of_int A + real_of_int B)"
    unfolding vAB using nAB by (rule fp_round_quarters32)
  have rF: "fp_round binary64 (real_of_int F) = Fin (real_of_int F)"
    using F by (subst (1 2) q, intro fp_round_quarters64) simp
  have rF4: "fp_round binary64 (real_of_int F / 4) = Fin (real_of_int F / 4)"
    using F by (intro fp_round_quarters64) simp
  have v: "real_of_int A + real_of_int B + real_of_int F / 4 = real_of_int (4 * (A + B) + F) / 4"
    by simp
  have n: "\<bar>4 * (A + B) + F\<bar> < 2 ^ 24" using A B F by simp
  have r64: "fp_round binary64 (real_of_int A + real_of_int B + real_of_int F / 4)
           = Fin (real_of_int A + real_of_int B + real_of_int F / 4)"
    unfolding v using n by (rule fp_round_quarters64)
  have r32: "fp_round binary32 (real_of_int A + real_of_int B + real_of_int F / 4)
           = Fin (real_of_int A + real_of_int B + real_of_int F / 4)"
    unfolding v using n by (rule fp_round_quarters32)
  have t1: "fp_add binary32 (Fin 0) (int_to_fp binary32 (push_bit 6 (scast b0))) = Fin (real_of_int A)"
    using rA fp_add_exact [of binary32 0 "real_of_int A"]
    by (simp add: int_to_fp_def sint_shl6 A_def)
  have t2: "fp_add binary32 (Fin (real_of_int A))
              (int_to_fp binary32 (signed_drop_bit 2 (scast b1 AND 0xFF)))
          = Fin (real_of_int A + real_of_int B)"
  proof -
    have "fp_round binary32 (real_of_int B) = Fin (real_of_int B)"
      using B by (subst (1 2) q, intro fp_round_quarters32) simp
    then have "int_to_fp binary32 (signed_drop_bit 2 (scast b1 AND 0xFF)) = Fin (real_of_int B)"
      by (simp add: int_to_fp_def sint_last_shr2 B_def)
    then show ?thesis using rAB by (simp add: fp_add_exact)
  qed
  have t3: "fp_mul binary64 (int_to_fp binary64 (scast b1 AND 0x03)) (Fin (1 / 4))
          = Fin (real_of_int F / 4)"
    using rF rF4 by (simp add: int_to_fp_def sint_last_and3 F_def [symmetric] fp_mul_def fp_zero_def)
  have t4: "fp_add binary64 (Fin (real_of_int A + real_of_int B)) (Fin (real_of_int F / 4))
          = Fin (real_of_int A + real_of_int B + real_of_int F / 4)"
    using r64 by (rule fp_add_exact)
  have "smc_strtof [b0, b1] 2 2
      = Some (Fin (real_of_int A + real_of_int B + real_of_int F / 4))"
    by (simp add: smc_strtof_def strtof_loop.simps char_at_def shl_int_def shr_int_def
        t1 t2 t3 t4 r32)
  then show ?thesis by (simp add: A_def B_def F_def)
qed

lemma sint_byte: "sint (b :: 8 word) = (if b < 0x80 then uint b else uint b - 256)"
proof -
  have u0: "0 \<le> uint b" by simp
  have u1: "uint b < 256" using uint_lt2p [of b] by simp
  have "sint b = take_bit 8 (uint b + 128) - 128"
    by (simp add: sint_uint signed_take_bit_eq_take_bit_shift)
  also have "\<dots> = (uint b + 128) mod 256 - 128" by (simp add: take_bit_eq_mod)
  also have "\<dots> = (if uint b < 128 then uint b else uint b - 256)"
  proof (cases "uint b < 128")
    case True
    with u0 have "(uint b + 128) mod 256 = uint b + 128" by (intro mod_pos_pos_trivial) simp_all
    with True show ?thesis by simp
  next
    case False
    have "uint b + 128 = uint b - 128 + 256" by simp
    then have "(uint b + 128) mod 256 = (uint b - 128 + 256) mod 256" by (simp only:)
    also have "\<dots> = (uint b - 128) mod 256" by (simp only: mod_add_self2)
    also have "\<dots> = uint b - 128" using False u1 by (intro mod_pos_pos_trivial) simp_all
    finally show ?thesis using False by simp
  qed
  finally show ?thesis by (simp add: word_less_def)
qed

lemma and3_unat: "unat ((b :: 8 word) AND 0x03) = unat b mod 4"
proof -
  have m: "(0x03 :: 8 word) = mask 2" by (simp add: mask_eq_exp_minus_1)
  have "unat (take_bit 2 b) = take_bit 2 (unat b)" by (rule unsigned_take_bit_eq)
  also have "\<dots> = unat b mod 4" by (simp add: take_bit_eq_mod)
  finally show ?thesis unfolding m by (simp only: take_bit_eq_mask)
qed

lemma strtof_spec_pair: "strtof_spec [b0, b1] 2 2
      = real (unat b0) * 64 + real (unat b1 div 4) + real (unat b1 mod 4) / 4"
  by (simp add: strtof_spec_def and3_unat)

lemma uint_div4_real: "real_of_int (uint (b1 :: 8 word) div 4) = real (unat b1 div 4)"
proof -
  have "int (unat b1 div 4) = uint b1 div 4" by (simp add: zdiv_int)
  then have "real_of_int (uint b1 div 4) = real_of_int (int (unat b1 div 4))" by (simp only:)
  then show ?thesis by (simp only: of_int_of_nat_eq)
qed

lemma uint_mod4_real: "real_of_int (uint (b1 :: 8 word) mod 4) = real (unat b1 mod 4)"
proof -
  have "int (unat b1 mod 4) = uint b1 mod 4" by (simp add: zmod_int)
  then have "real_of_int (uint b1 mod 4) = real_of_int (int (unat b1 mod 4))" by (simp only:)
  then show ?thesis by (simp only: of_int_of_nat_eq)
qed

lemma uint_real: "real_of_int (uint (b :: 8 word)) = real (unat b)"
  by simp

text \<open>
  On a pair of bytes with e = 2 the code and the formula of the specification agree when the
  first byte is below \<open>0x80\<close>, and differ by \<open>256 * 64\<close> when it is not.
\<close>

lemma strtof_fpe2_spec:
  "smc_strtof [b0, b1] 2 2
     = Some (Fin (strtof_spec [b0, b1] 2 2 - (if b0 < 0x80 then 0 else 16384)))"
proof -
  have s: "real_of_int (sint b0) = real (unat b0) - (if b0 < 0x80 then 0 else 256)"
    by (simp only: sint_byte of_int_diff uint_real split: if_split) simp
  have "real_of_int (sint b0 * 64 + uint b1 div 4) + real_of_int (uint b1 mod 4) / 4
      = real_of_int (sint b0) * 64 + real_of_int (uint b1 div 4) + real_of_int (uint b1 mod 4) / 4"
    by (simp only: of_int_add of_int_mult of_int_numeral)
  also have "\<dots> = (real (unat b0) - (if b0 < 0x80 then 0 else 256)) * 64
      + real (unat b1 div 4) + real (unat b1 mod 4) / 4"
    by (simp only: s uint_div4_real uint_mod4_real)
  also have "\<dots> = strtof_spec [b0, b1] 2 2 - (if b0 < 0x80 then 0 else 16384)"
    unfolding strtof_spec_pair by (simp split: if_split)
  finally show ?thesis by (simp only: strtof_fpe2)
qed

lemma strtof_0C80: "smc_strtof [0x0C, 0x80] 2 2 = Some (Fin 800)"
  by (simp add: smc_strtof_def strtof_loop.simps char_at_def shl_int_def shr_int_def fp_eval)

text \<open>
  C3 (as amended). \<open>_strtof\<close> with size 2 and e = 2 on the bytes \<open>0C 80\<close> returns exactly 800.0:
  \<open>0x0C << 6\<close> is 768, \<open>0x80 >> 2\<close> is 32 and the two low bits of \<open>0x80\<close> are clear.
\<close>

theorem strtof_0C80_is_800: "smc_strtof [0x0C, 0x80] 2 2 = Some (Fin 800)"
  by (rule strtof_0C80)

theorem strtof_0C80_not_12_5: "smc_strtof [0x0C, 0x80] 2 2 \<noteq> Some (Fin 12.5)"
  using strtof_0C80 by simp

text \<open>
  C2. The specification takes every byte as unsigned. On the bytes \<open>80 00\<close> with size 2 and
  e = 2 its formula gives 8192, and \<open>_strtof\<close> returns -8192: the first byte is a \<open>char\<close> and
  is shifted as the negative number it is, while the last byte is masked with \<open>0xff\<close> first.
\<close>

theorem strtof_first_byte_signed:
  "smc_strtof [0x80, 0x00] 2 2 = Some (Fin (- 8192)) \<and> strtof_spec [0x80, 0x00] 2 2 = 8192"
  by (simp add: smc_strtof_def strtof_loop.simps char_at_def shl_int_def shr_int_def fp_eval
      strtof_spec_def)

section \<open>Properties of the controller session\<close>

text \<open>Every buffer of at least four bytes packs to a key.\<close>

lemma strtoul_key_defined: "4 \<le> length k \<Longrightarrow> \<exists>packed. smc_strtoul k 4 16 = Some packed"
  by (auto simp add: smc_strtoul_def strtoul_loop.simps char_at_def shl_int_def)

lemma readkey_refused:
  assumes "smc_strtoul k 4 16 = Some packed"
    and "svc (device w) KERNEL_INDEX_SMC
           (SMCKeyData_zero\<lparr>SMCKeyData_t.key := packed, data8 := SMC_CMD_READ_KEYINFO\<rparr>)
           SMCKeyData_zero = (r, out, d)"
    and "r \<noteq> kIOReturnSuccess"
  shows "SMCReadKey svc k w = Some (r, SMCVal_zero,
           w\<lparr>device := d,
             calls := calls w @ [(KERNEL_INDEX_SMC,
               SMCKeyData_zero\<lparr>SMCKeyData_t.key := packed, data8 := SMC_CMD_READ_KEYINFO\<rparr>)]\<rparr>)"
  using assms by (simp add: SMCReadKey_def SMCCall_def Let_def)

text \<open>
  C6. When the first request of \<open>SMCReadKey\<close>, the one for the key information, returns a
  status other than success, \<open>SMCReadKey\<close> returns that status, the value it hands back is
  the zeroed one, and the only request issued is that first one: the request for the bytes
  is not made. \<open>getSMCrpm\<close> then returns its sentinel -1 and \<open>getSMCtemp\<close> returns 0.
\<close>

theorem readkey_first_phase_failure:
  assumes "smc_strtoul k 4 16 = Some packed"
    and "svc (device w) KERNEL_INDEX_SMC
           (SMCKeyData_zero\<lparr>SMCKeyData_t.key := packed, data8 := SMC_CMD_READ_KEYINFO\<rparr>)
           SMCKeyData_zero = (r, out, d)"
    and "r \<noteq> kIOReturnSuccess"
  shows "\<exists>w1. SMCReadKey svc k w = Some (r, SMCVal_zero, w1)
           \<and> calls w1 = calls w @ [(KERNEL_INDEX_SMC,
                SMCKeyData_zero\<lparr>SMCKeyData_t.key := packed, data8 := SMC_CMD_READ_KEYINFO\<rparr>)]
           \<and> device w1 = d
           \<and> getSMCrpm svc k w = Some (Fin (- 1), w1)
           \<and> getSMCtemp svc k w = Some (Fin 0, w1)"
  using assms(3) readkey_refused [where svc = svc and w = w, OF assms]
  by (simp add: getSMCrpm_def getSMCtemp_def)

theorem readkey_first_phase_failure_witness:
  "smc_strtoul (c_str ''TC0P'') 4 16 = Some 0x54433050 \<and>
   (\<exists>w1. SMCReadKey (refuse_service 1) (c_str ''TC0P'') \<lparr>device = (), calls = []\<rparr>
            = Some (1, SMCVal_zero, w1)
      \<and> calls w1 = [(KERNEL_INDEX_SMC,
            SMCKeyData_zero\<lparr>SMCKeyData_t.key := 0x54433050, data8 := SMC_CMD_READ_KEYINFO\<rparr>)]
      \<and> getSMCrpm (refuse_service 1) (c_str ''TC0P'') \<lparr>device = (), calls = []\<rparr>
            = Some (Fin (- 1), w1)
      \<and> getSMCtemp (refuse_service 1) (c_str ''TC0P'') \<lparr>device = (), calls = []\<rparr>
            = Some (Fin 0, w1))"
proof -
  have p: "smc_strtoul (c_str ''TC0P'') 4 16 = Some 0x54433050"
    by (simp add: smc_strtoul_def c_str_def strtoul_loop.simps char_at_def shl_int_def)
  have s: "refuse_service 1 (device \<lparr>device = (), calls = []\<rparr>) KERNEL_INDEX_SMC
      (SMCKeyData_zero\<lparr>SMCKeyData_t.key := 0x54433050, data8 := SMC_CMD_READ_KEYINFO\<rparr>)
      SMCKeyData_zero = (1, SMCKeyData_zero, ())"
    by (simp add: refuse_service_def)
  have n: "(1 :: kern_return_t) \<noteq> kIOReturnSuccess" by (simp add: kIOReturnSuccess_def)
  from readkey_first_phase_failure
    [where svc = "refuse_service 1" and w = "\<lparr>device = (), calls = []\<rparr>", OF p s n] p
  show ?thesis by auto
qed

section \<open>Properties of the temperature reader\<close>

lemma sp78_value_eq:
  "sp78_value (b0 # b1 # rest) = Some (Fin (real_of_int (sint b0 * 256 + uint b1) / 256))"
proof -
  define n where "n = sint b0 * 256 + uint b1"
  have lo: "- 128 \<le> sint b0" using sint_ge [of b0] by simp
  have hi: "sint b0 < 128" using sint_lt [of b0] by simp
  have u0: "0 \<le> uint b1" by simp
  have u1: "uint b1 < 256" using uint_lt2p [of b1] by simp
  have "\<bar>n\<bar> < 65536" using lo hi u0 u1 unfolding n_def by linarith
  then have n: "\<bar>n\<bar> < 2 ^ 16" by simp
  then have n53: "\<bar>n\<bar> < 2 ^ prec binary64" by (simp add: binary64_def)
  have "real_of_int \<bar>n\<bar> < 2 ^ 16" using n by simp
  also have "(2::real) ^ 16 = 2 powi 16" by simp
  also have "\<dots> \<le> 2 powi 1024" by (intro power_int_increasing) simp_all
  finally have big: "\<bar>real_of_int n\<bar> < 2 powi emax binary64" by (simp add: binary64_def)
  have r1: "fp_round binary64 (real_of_int n) = Fin (real_of_int n)"
    by (rule fp_round_exact [where n = n and k = 0]) (use n53 big in \<open>simp_all add: binary64_def\<close>)
  have "\<bar>real_of_int n / 256\<bar> \<le> \<bar>real_of_int n\<bar>" by simp
  then have big': "\<bar>real_of_int n / 256\<bar> < 2 powi emax binary64" using big by (rule le_less_trans)
  have r2: "fp_round binary64 (real_of_int n / 256) = Fin (real_of_int n / 256)"
    by (rule fp_round_exact [where n = n and k = "- 8"])
      (use n53 big' in \<open>simp_all add: binary64_def power_int_minus inverse_eq_divide\<close>)
  have "fp_div binary64 (Fin (real_of_int n)) (Fin 256) = Fin (real_of_int n / 256)"
    using r2 by (simp add: fp_div_def fp_zero_def)
  then show ?thesis by (simp add: sp78_value_def r1 n_def [symmetric])
qed

lemma getSMCtemp_sp78:
  assumes "SMCReadKey svc k w = Some (res, val, w')" and "res = kIOReturnSuccess"
    and "0 < dataSize val" and "strcmp_eq (dataType val) (c_str ''sp78'')"
    and "bytes val = b0 # b1 # rest"
  shows "getSMCtemp svc k w = Some (Fin (real_of_int (sint b0 * 256 + uint b1) / 256), w')"
  using assms by (simp add: getSMCtemp_def sp78_value_eq)

text \<open>
  C4. When \<open>SMCReadKey\<close> succeeds with a non-empty value of type \<open>sp78\<close>, \<open>getSMCtemp\<close> returns
  (byte 0 as a signed 8-bit number, times 256, plus byte 1 as an unsigned number) divided by
  256; the bytes \<open>2C 00\<close> decode to 44 and the bytes \<open>FF 00\<close> to -1.
\<close>

theorem temp_sp78_decode:
  assumes "SMCReadKey svc k w = Some (kIOReturnSuccess, val, w')"
    and "0 < dataSize val"
    and "strcmp_eq (dataType val) (c_str ''sp78'')"
    and "bytes val = b0 # b1 # rest"
  shows "getSMCtemp svc k w = Some (Fin (real_of_int (sint b0 * 256 + uint b1) / 256), w')
       \<and> sp78_value (0x2C # 0x00 # rest) = Some (Fin 44)
       \<and> sp78_value (0xFF # 0x00 # rest) = Some (Fin (- 1))"
  using getSMCtemp_sp78 [OF assms(1) refl assms(2,3,4)]
  by (simp add: sp78_value_eq)

theorem temp_sp78_decode_witness:
  "\<exists>val w'.
     SMCReadKey (answer_service
         \<lparr>SMCKeyData_keyInfo_t.dataSize = 2, dataType = 0x73703738, dataAttributes = 0\<rparr>
         (0x2C # 0x00 # replicate 30 0)) (c_str ''TC0P'') \<lparr>device = (), calls = []\<rparr>
       = Some (kIOReturnSuccess, val, w')
     \<and> 0 < dataSize val
     \<and> strcmp_eq (dataType val) (c_str ''sp78'')
     \<and> bytes val = 0x2C # 0x00 # replicate 30 0
     \<and> getSMCtemp (answer_service
         \<lparr>SMCKeyData_keyInfo_t.dataSize = 2, dataType = 0x73703738, dataAttributes = 0\<rparr>
         (0x2C # 0x00 # replicate 30 0)) (c_str ''TC0P'') \<lparr>device = (), calls = []\<rparr>
       = Some (Fin 44, w')"
proof -
  let ?svc = "answer_service
    \<lparr>SMCKeyData_keyInfo_t.dataSize = 2, dataType = 0x73703738, dataAttributes = 0\<rparr>
    (0x2C # 0x00 # replicate 30 0)"
  let ?w = "\<lparr>device = (), calls = []\<rparr>"
  obtain val w' where r: "SMCReadKey ?svc (c_str ''TC0P'') ?w = Some (kIOReturnSuccess, val, w')"
    and s: "0 < dataSize val" and t: "strcmp_eq (dataType val) (c_str ''sp78'')"
    and b: "bytes val = 0x2C # 0x00 # replicate 30 0"
    by (simp add: smc_eval)
  from temp_sp78_decode [OF r s t b]
  have "getSMCtemp ?svc (c_str ''TC0P'') ?w = Some (Fin 44, w')" by simp
  with r s t b show ?thesis by blast
qed

section \<open>Properties of the fan aggregator\<close>

lemma fp_sub_Fin:
  "fp_sub fmt (Fin a) (Fin b) = (if a = b then Fin 0 else fp_round fmt (a - b))"
  by (simp add: fp_sub_def fp_add_def)

lemma div_neg:
  assumes "r < 0" and "b \<noteq> NaN" and "\<not> fp_sign b"
  shows "fp_div fmt (Fin r) b \<noteq> NaN \<and> fp_sign (fp_div fmt (Fin r) b)"
proof (cases b)
  case (Fin x)
  with assms(3) have x: "0 \<le> x" by simp
  show ?thesis
  proof (cases "x = 0")
    case True
    with Fin assms(1) show ?thesis by (simp add: fp_div_def fp_inf_def)
  next
    case False
    with x assms(1) have neg: "r / x < 0" by (simp add: divide_neg_pos)
    then have "r / x \<noteq> 0" by (rule less_imp_neq)
    then have "fp_sign (fp_round fmt (r / x)) = (r / x < 0)" by (rule fp_round_sign)
    with neg have "fp_round fmt (r / x) \<noteq> NaN \<and> fp_sign (fp_round fmt (r / x))"
      by (simp add: fp_round_not_NaN)
    with Fin False assms(1) show ?thesis by (simp add: fp_div_def)
  qed
next
  case PInf
  with assms(1) show ?thesis by (simp add: fp_div_def fp_zero_def)
qed (use assms in simp_all)

lemma convert_neg:
  assumes "v \<noteq> NaN" and "fp_sign v"
  shows "fp_convert fmt v \<noteq> NaN \<and> fp_sign (fp_convert fmt v)"
proof (cases v)
  case (Fin x)
  with assms(2) have "x < 0" by simp
  then have "x \<noteq> 0" by simp
  then have "fp_sign (fp_round fmt x) = (x < 0)" by (rule fp_round_sign)
  with Fin \<open>x < 0\<close> show ?thesis by (simp add: fp_round_not_NaN)
qed (use assms in simp_all)

lemma mul100_neg:
  assumes "v \<noteq> NaN" and "fp_sign v"
  shows "fp_mul fmt v (Fin 100) \<noteq> NaN \<and> fp_sign (fp_mul fmt v (Fin 100))"
proof (cases v)
  case (Fin x)
  with assms(2) have "x < 0" by simp
  then have neg: "x * 100 < 0" by simp
  then have "x * 100 \<noteq> 0" by (rule less_imp_neq)
  then have "fp_sign (fp_round fmt (x * 100)) = (x * 100 < 0)" by (rule fp_round_sign)
  with neg have "fp_round fmt (x * 100) \<noteq> NaN \<and> fp_sign (fp_round fmt (x * 100))"
    by (simp add: fp_round_not_NaN)
  with Fin \<open>x < 0\<close> show ?thesis by (simp add: fp_mul_def)
qed (use assms in \<open>simp_all add: fp_mul_def fp_zero_def fp_inf_def\<close>)

lemma clamp_neg:
  assumes "v \<noteq> NaN" and "fp_sign v"
  shows "fp_is_zero (if fp_lt v (Fin 0) then Fin 0 else v)"
  using assms by (cases v) (simp_all add: fp_lt_def)

lemma percent_never_negative: "\<not> fp_lt (fan_percent a b c) (Fin 0)"
  by (simp add: fan_percent_def Let_def fp_lt_def)

lemma percent_below_min:
  assumes "is_float cur" and "is_float mn" and "cur < mn" and "mn \<le> mx"
  shows "fp_is_zero (fan_percent (Fin cur) (Fin mn) (Fin mx))"
proof -
  from assms(1,2,3) obtain r where d1: "fp_sub binary64 (Fin cur) (Fin mn) = Fin r" and r: "r < 0"
    using double_diff [of cur mn] by auto
  define d2 where "d2 = fp_sub binary32 (Fin mx) (Fin mn)"
  have d2: "d2 \<noteq> NaN \<and> \<not> fp_sign d2"
  proof (cases "mx = mn")
    case True
    then show ?thesis by (simp add: d2_def fp_sub_Fin)
  next
    case False
    with assms(4) have nz: "mx - mn \<noteq> 0" and nn: "\<not> mx - mn < 0" by simp_all
    from nz have "fp_sign (fp_round binary32 (mx - mn)) = (mx - mn < 0)" by (rule fp_round_sign)
    with nn show ?thesis
      using False by (simp add: d2_def fp_sub_Fin fp_round_not_NaN)
  qed
  define qv where "qv = fp_div binary64 (Fin r) d2"
  have "qv \<noteq> NaN \<and> fp_sign qv" unfolding qv_def using r d2 by (intro div_neg) simp_all
  then have "fp_convert binary32 qv \<noteq> NaN \<and> fp_sign (fp_convert binary32 qv)"
    by (intro convert_neg) simp_all
  then have "fp_mul binary32 (fp_convert binary32 qv) (Fin 100) \<noteq> NaN
      \<and> fp_sign (fp_mul binary32 (fp_convert binary32 qv) (Fin 100))"
    by (intro mul100_neg) simp_all
  then have "fp_is_zero (if fp_lt (fp_mul binary32 (fp_convert binary32 qv) (Fin 100)) (Fin 0)
      then Fin 0 else fp_mul binary32 (fp_convert binary32 qv) (Fin 100))"
    by (intro clamp_neg) simp_all
  then show ?thesis
    unfolding fan_percent_def Let_def d1 qv_def d2_def .
qed

lemma fp_sub_finite:
  assumes "fp_is_finite a" and "fp_is_finite b"
  shows "fp_sub fmt a b
       = (if fp_val a = fp_val b then (if a = NZero \<and> b = Fin 0 then NZero else Fin 0)
          else fp_round fmt (fp_val a - fp_val b))"
  using assms by (cases a; cases b) (auto simp add: fp_sub_def fp_add_def)

text \<open>The signs of the zeros matter to the percent only when the minimum is +0.\<close>

lemma fan_percent_values:
  assumes "fp_is_finite cur" and "fp_is_finite mn" and "fp_is_finite mx"
    and "\<not> (cur = NZero \<and> mn = Fin 0)" and "\<not> (mx = NZero \<and> mn = Fin 0)"
  shows "fan_percent cur mn mx = fan_percent (Fin (fp_val cur)) (Fin (fp_val mn)) (Fin (fp_val mx))"
proof -
  have "fp_sub binary64 cur mn = fp_sub binary64 (Fin (fp_val cur)) (Fin (fp_val mn))"
    using assms(1,2,4) by (simp add: fp_sub_finite)
  moreover have "fp_sub binary32 mx mn = fp_sub binary32 (Fin (fp_val mx)) (Fin (fp_val mn))"
    using assms(2,3,5) by (simp add: fp_sub_finite)
  ultimately show ?thesis by (simp only: fan_percent_def)
qed

lemma percent_below_min_Fin:
  assumes "is_float cur" and "is_float mn" and "cur < mn" and "mn \<le> mx"
  shows "fan_percent (Fin cur) (Fin mn) (Fin mx) = Fin 0
       \<or> fan_percent (Fin cur) (Fin mn) (Fin mx) = NZero"
  using percent_below_min [OF assms] by (cases "fan_percent (Fin cur) (Fin mn) (Fin mx)") simp_all

lemma percent_below_min_finite:
  assumes "fp_is_finite cur" and "fp_is_finite mn" and "fp_is_finite mx"
    and "is_float (fp_val cur)" and "is_float (fp_val mn)"
    and "\<not> fp_lt cur (Fin 0)"
    and "fp_val cur < fp_val mn" and "fp_val mn \<le> fp_val mx"
  shows "fan_percent cur mn mx = Fin 0 \<or> fan_percent cur mn mx = NZero"
proof -
  from assms(1,6) have "0 \<le> fp_val cur" by (cases cur) (simp_all add: fp_lt_def)
  with assms(7) have "0 < fp_val mn" by simp
  then have "mn \<noteq> Fin 0" by auto
  then have "fan_percent cur mn mx
      = fan_percent (Fin (fp_val cur)) (Fin (fp_val mn)) (Fin (fp_val mx))"
    using assms(1-3) by (intro fan_percent_values) simp_all
  with percent_below_min_Fin [OF assms(4,5,7,8)] show ?thesis by simp
qed

lemma percent_exact_Fin:
  assumes d1: "is_float (cur - mn)" and d2: "is_float (mx - mn)" and ne: "mx \<noteq> mn"
    and q: "is_float ((cur - mn) / (mx - mn))" and p: "is_float ((cur - mn) / (mx - mn) * 100)"
  shows "fan_percent (Fin cur) (Fin mn) (Fin mx)
       = (if cur = mn \<and> mx < mn then NZero else Fin (max 0 ((cur - mn) / (mx - mn) * 100)))"
proof -
  define a where "a = cur - mn"
  define b where "b = mx - mn"
  define t where "t = a / b"
  have b0: "b \<noteq> 0" using ne by (simp add: b_def)
  have s1: "fp_sub binary64 (Fin cur) (Fin mn) = Fin a"
    using is_float_double [OF d1] by (simp add: fp_sub_Fin a_def)
  have s2: "fp_sub binary32 (Fin mx) (Fin mn) = Fin b"
    using d2 ne by (simp add: fp_sub_Fin is_float_def b_def)
  have t32: "fp_round binary32 t = Fin t" using q by (simp add: is_float_def t_def a_def b_def)
  have t64: "fp_round binary64 t = Fin t"
    using is_float_double [OF q] by (simp add: t_def a_def b_def)
  have p32: "fp_round binary32 (t * 100) = Fin (t * 100)"
    using p by (simp add: is_float_def t_def a_def b_def)
  have "fan_percent (Fin cur) (Fin mn) (Fin mx)
      = (if a = 0 \<and> b < 0 then NZero else Fin (max 0 (t * 100)))"
  proof (cases "a = 0")
    case True
    then have t0: "t = 0" by (simp add: t_def)
    have "fp_div binary64 (Fin a) (Fin b) = fp_zero (b < 0)"
      using True b0 by (simp add: fp_div_def)
    then show ?thesis
      unfolding fan_percent_def Let_def s1 s2 t0
      using True by (simp add: fp_mul_def fp_zero_def fp_lt_def fp_round_def)
  next
    case False
    with b0 have tn: "t \<noteq> 0" by (simp add: t_def)
    have s3: "fp_div binary64 (Fin a) (Fin b) = Fin t"
      using False b0 t64 by (simp add: fp_div_def t_def)
    have s4: "fp_mul binary32 (Fin t) (Fin 100) = Fin (t * 100)"
      using tn p32 by (simp add: fp_mul_def)
    show ?thesis
      unfolding fan_percent_def Let_def s1 s2 s3 fp_convert.simps t32 s4
      using False by (simp add: fp_lt_def max_def)
  qed
  moreover have "(a = 0 \<and> b < 0) = (cur = mn \<and> mx < mn)" by (auto simp add: a_def b_def)
  ultimately show ?thesis by (simp only: t_def a_def b_def)
qed

lemma percent_exact_finite:
  assumes "fp_is_finite cur" and "fp_is_finite mn" and "fp_is_finite mx"
    and "fp_lt (Fin 0) cur"
    and "is_float (fp_val cur - fp_val mn)" and "is_float (fp_val mx - fp_val mn)"
    and "fp_val mx \<noteq> fp_val mn"
    and "is_float ((fp_val cur - fp_val mn) / (fp_val mx - fp_val mn))"
    and "is_float ((fp_val cur - fp_val mn) / (fp_val mx - fp_val mn) * 100)"
  shows "fan_percent cur mn mx
       = (if fp_val cur = fp_val mn \<and> fp_val mx < fp_val mn then NZero
          else Fin (max 0 ((fp_val cur - fp_val mn) / (fp_val mx - fp_val mn) * 100)))"
proof -
  from assms(4) have "cur \<noteq> NZero" by (auto simp add: fp_lt_def)
  moreover from assms(7) have "\<not> (mx = NZero \<and> mn = Fin 0)" by auto
  ultimately have "fan_percent cur mn mx
      = fan_percent (Fin (fp_val cur)) (Fin (fp_val mn)) (Fin (fp_val mx))"
    using assms(1-3) by (intro fan_percent_values) simp_all
  with percent_exact_Fin [OF assms(5,6,7,8,9)] show ?thesis by simp
qed

text \<open>Equal limits: the divisor is a zero, -0 only for a maximum of -0 and a minimum of +0.\<close>

lemma equal_limits_divisor:
  assumes "fp_is_finite mn" and "fp_is_finite mx" and "fp_val mx = fp_val mn"
  shows "fp_sub binary32 mx mn = (if mx = NZero \<and> mn = Fin 0 then NZero else Fin 0)"
  using assms by (simp add: fp_sub_finite)

lemma percent_zero_divisor:
  assumes fin: "fp_is_finite cur" "fp_is_finite mn" "fp_is_finite mx"
    and eq: "fp_val mx = fp_val mn"
    and fl: "is_float (fp_val cur)" "is_float (fp_val mn)"
    and g: "\<not> fp_lt cur (Fin 0)"
  shows "fan_percent cur mn mx
       = (if fp_val cur = fp_val mn then NaN
          else if fp_val cur < fp_val mn then Fin 0
          else if mx = NZero \<and> mn = Fin 0 then Fin 0
          else PInf)"
proof -
  define D where "D = fp_sub binary32 mx mn"
  define N where "N = fp_sub binary64 cur mn"
  have D: "D = (if mx = NZero \<and> mn = Fin 0 then NZero else Fin 0)"
    unfolding D_def using fin(2,3) eq by (rule equal_limits_divisor)
  have pct: "fan_percent cur mn mx
      = (if fp_lt (fp_mul binary32 (fp_convert binary32 (fp_div binary64 N D)) (Fin 100)) (Fin 0)
         then Fin 0
         else fp_mul binary32 (fp_convert binary32 (fp_div binary64 N D)) (Fin 100))"
    by (simp only: fan_percent_def Let_def N_def D_def)
  from fin(1) g have c0: "0 \<le> fp_val cur" by (cases cur) (simp_all add: fp_lt_def)
  show ?thesis
  proof (cases "fp_val cur = fp_val mn")
    case True
    then have "fp_is_zero N" unfolding N_def using fin(1,2) by (simp add: fp_sub_finite)
    moreover have "fp_is_zero D" using D by simp
    ultimately have "fp_div binary64 N D = NaN" by (simp add: fp_div_def)
    with True show ?thesis unfolding pct by (simp add: fp_mul_def fp_lt_def)
  next
    case False
    have "N = fp_sub binary64 (Fin (fp_val cur)) (Fin (fp_val mn))"
      unfolding N_def using fin(1,2) False by (simp add: fp_sub_finite)
    with double_diff [OF fl False] obtain r
      where N: "N = Fin r" and r: "r \<noteq> 0" "(r < 0) = (fp_val cur < fp_val mn)"
      by auto
    show ?thesis
    proof (cases "fp_val cur < fp_val mn")
      case True
      with c0 have "mn \<noteq> Fin 0" by auto
      with D have "D = Fin 0" by simp
      with N r True have "fp_div binary64 N D = NInf" by (simp add: fp_div_def fp_inf_def)
      with True False show ?thesis unfolding pct by (simp add: fp_mul_def fp_lt_def fp_inf_def)
    next
      case above: False
      with r have rpos: "\<not> r < 0" by simp
      show ?thesis
      proof (cases "mx = NZero \<and> mn = Fin 0")
        case True
        with D have "D = NZero" by simp
        with N r rpos have "fp_div binary64 N D = NInf" by (simp add: fp_div_def fp_inf_def)
        with True False above show ?thesis
          unfolding pct by (simp add: fp_mul_def fp_lt_def fp_inf_def)
      next
        case nz: False
        with D have "D = Fin 0" by simp
        with N r rpos have "fp_div binary64 N D = PInf" by (simp add: fp_div_def fp_inf_def)
        with nz False above show ?thesis
          unfolding pct by (simp add: fp_mul_def fp_lt_def fp_inf_def)
      qed
    qed
  qed
qed

lemma fp_eq_cases:
  assumes "fp_eq mx mn" and "\<not> fp_lt mn (Fin 0)"
  shows "(mn = PInf \<and> mx = PInf)
       \<or> (fp_is_finite mn \<and> fp_is_finite mx \<and> fp_val mx = fp_val mn)"
  using assms by (cases mn; cases mx) (simp_all add: fp_eq_def fp_lt_def)

lemma equal_limits_percent:
  assumes gc: "\<not> fp_lt cur (Fin 0)" and gm: "\<not> fp_lt mn (Fin 0)" and eq: "fp_eq mx mn"
    and fl: "is_float (fp_val cur)" "is_float (fp_val mn)"
  shows "fp_sub binary32 mx mn
       = (if mn = PInf then NaN else if mx = NZero \<and> mn = Fin 0 then NZero else Fin 0)"
    and "fan_percent cur mn mx
       = (if mn = PInf \<or> cur = NaN then NaN
          else if cur = PInf then (if mx = NZero \<and> mn = Fin 0 then Fin 0 else PInf)
          else if fp_val cur = fp_val mn then NaN
          else if fp_val cur < fp_val mn then Fin 0
          else if mx = NZero \<and> mn = Fin 0 then Fin 0
          else PInf)"
proof -
  from fp_eq_cases [OF eq gm]
  consider (inf) "mn = PInf" "mx = PInf"
    | (fin) "fp_is_finite mn" "fp_is_finite mx" "fp_val mx = fp_val mn"
    by blast
  then have "fp_sub binary32 mx mn
       = (if mn = PInf then NaN else if mx = NZero \<and> mn = Fin 0 then NZero else Fin 0)
     \<and> fan_percent cur mn mx
       = (if mn = PInf \<or> cur = NaN then NaN
          else if cur = PInf then (if mx = NZero \<and> mn = Fin 0 then Fin 0 else PInf)
          else if fp_val cur = fp_val mn then NaN
          else if fp_val cur < fp_val mn then Fin 0
          else if mx = NZero \<and> mn = Fin 0 then Fin 0
          else PInf)"
  proof cases
    case inf
    then have d: "fp_sub binary32 mx mn = NaN" by (simp add: fp_sub_def fp_add_def)
    then have "fan_percent cur mn mx = NaN"
      by (simp add: fan_percent_def Let_def fp_div_def fp_mul_def fp_lt_def)
    with d inf show ?thesis by simp
  next
    case fin
    have np: "mn \<noteq> PInf" using fin(1) by auto
    have d: "fp_sub binary32 mx mn = (if mx = NZero \<and> mn = Fin 0 then NZero else Fin 0)"
      using fin by (rule equal_limits_divisor)
    have "fan_percent cur mn mx
       = (if cur = NaN then NaN
          else if cur = PInf then (if mx = NZero \<and> mn = Fin 0 then Fin 0 else PInf)
          else if fp_val cur = fp_val mn then NaN
          else if fp_val cur < fp_val mn then Fin 0
          else if mx = NZero \<and> mn = Fin 0 then Fin 0
          else PInf)"
    proof (cases "fp_is_finite cur")
      case True
      then have "cur \<noteq> NaN" "cur \<noteq> PInf" by auto
      with percent_zero_divisor [OF True fin(1,2,3) fl gc] show ?thesis by simp
    next
      case False
      with gc consider "cur = NaN" | "cur = PInf" by (cases cur) (simp_all add: fp_lt_def)
      then show ?thesis
      proof cases
        case 1
        then show ?thesis
          by (simp add: fan_percent_def Let_def fp_sub_def fp_add_def fp_div_def fp_mul_def
              fp_lt_def)
      next
        case 2
        have "fp_sub binary64 cur mn = PInf"
          using 2 fin(1) by (cases mn) (simp_all add: fp_sub_def fp_add_def)
        then show ?thesis
          unfolding fan_percent_def Let_def d using 2
          by (simp add: fp_div_def fp_mul_def fp_lt_def fp_inf_def)
      qed
    qed
    with d np show ?thesis by simp
  qed
  then show "fp_sub binary32 mx mn
       = (if mn = PInf then NaN else if mx = NZero \<and> mn = Fin 0 then NZero else Fin 0)"
    and "fan_percent cur mn mx
       = (if mn = PInf \<or> cur = NaN then NaN
          else if cur = PInf then (if mx = NZero \<and> mn = Fin 0 then Fin 0 else PInf)
          else if fp_val cur = fp_val mn then NaN
          else if fp_val cur < fp_val mn then Fin 0
          else if mx = NZero \<and> mn = Fin 0 then Fin 0
          else PInf)"
    by blast+
qed

lemma percent_3000: "fan_percent (Fin 3000) (Fin 1000) (Fin 5000) = Fin 50"
  by (simp add: fan_percent_def fp_eval)

lemma percent_6000: "fan_percent (Fin 6000) (Fin 1000) (Fin 5000) = Fin 125"
  by (simp add: fan_percent_def fp_eval)

text \<open>
  The negative zero is not below zero, so the clamp lets it through; and a maximum of -0 read
  from a \<open>flt\<close> value equals a minimum of +0.
\<close>

lemma percent_negative_zero: "fan_percent (Fin 1000) (Fin 1000) (Fin 800) = NZero"
  by (simp add: fan_percent_def fp_eval)

lemma percent_signed_zero_limits:
  "fp_eq NZero (Fin 0) \<and> fan_percent (Fin 1500) (Fin 0) NZero = Fin 0"
  by (simp add: fp_eq_def fan_percent_def fp_eval)

lemma flt_negative_zero: "float_of_bytes [0x00, 0x00, 0x00, 0x80] = Some NZero"
  by (simp add: float_of_bytes_def f32_of_bits_def fp_zero_def)

text \<open>
  A current below the minimum, with a maximum above it, can give the negative zero: the
  quotient underflows when it is stored in the \<open>float\<close>.
\<close>

lemma percent_underflow:
  "is_float (2 powi (- 149)) \<and> is_float (2 powi (- 148)) \<and> is_float (2 ^ 127)
   \<and> fan_percent (Fin (2 powi (- 149))) (Fin (2 powi (- 148))) (Fin (2 ^ 127)) = NZero"
  by (simp add: is_float_def fan_percent_def fp_eval power_int_minus)

subsection \<open>The values of the sensor reader\<close>

lemma round_half_even_le_int:
  assumes "y \<le> real_of_int N"
  shows "round_half_even y \<le> N"
proof -
  have fl: "\<lfloor>y\<rfloor> \<le> N" using assms by (simp add: floor_le_iff)
  show ?thesis
  proof (cases "\<lfloor>y\<rfloor> = N")
    case True
    then have "real_of_int N \<le> y" using of_int_floor_le [of y] by simp
    with assms have "y = real_of_int N" by simp
    then show ?thesis by (simp add: round_half_even_of_int)
  next
    case False
    with fl have "\<lfloor>y\<rfloor> + 1 \<le> N" by simp
    moreover have "round_half_even y \<le> \<lfloor>y\<rfloor> + 1" by (simp add: round_half_even_def Let_def)
    ultimately show ?thesis by (rule order_trans [rotated])
  qed
qed

text \<open>What rounding to \<open>float\<close> returns is a \<open>float\<close>.\<close>

lemma fp_round_is_float:
  assumes "fp_round binary32 x = Fin y"
  shows "is_float y"
proof (cases "x = 0")
  case True
  with assms have "y = 0" by (simp add: fp_round_def)
  then show ?thesis by (simp add: is_float_def fp_round_def)
next
  case False
  define q where "q = max (qmin binary32) (ilog2 \<bar>x\<bar> - int (prec binary32) + 1)"
  define m where "m = round_half_even (\<bar>x\<bar> / 2 powi q)"
  define r where "r = real_of_int m * 2 powi q"
  have e: "fp_round binary32 x =
      (if 2 powi (emax binary32) \<le> r then (if x < 0 then NInf else PInf)
       else if m = 0 then (if x < 0 then NZero else Fin 0)
       else Fin (if x < 0 then - r else r))"
    using False by (simp only: fp_round_def Let_def q_def [symmetric] m_def [symmetric]
      r_def [symmetric] if_False)
  have m0: "0 \<le> m" unfolding m_def by (rule round_half_even_nonneg) simp
  have q149: "- 149 \<le> q" by (simp add: q_def binary32_def)
  have qL: "ilog2 \<bar>x\<bar> + 1 \<le> q + 24" by (simp add: q_def binary32_def)
  have pos: "0 < \<bar>x\<bar>" using False by simp
  have "\<bar>x\<bar> < 2 powi (ilog2 \<bar>x\<bar> + 1)" using pos by (rule ilog2_upper)
  also have "(2::real) powi (ilog2 \<bar>x\<bar> + 1) \<le> 2 powi (q + 24)"
    using qL by (intro power_int_increasing) simp_all
  also have "(2::real) powi (q + 24) = 2 powi q * 2 ^ 24"
    by (subst power_int_add) simp_all
  finally have "\<bar>x\<bar> / 2 powi q < 2 ^ 24" by (simp add: field_simps)
  then have "\<bar>x\<bar> / 2 powi q \<le> real_of_int (2 ^ 24)" by simp
  then have m24: "m \<le> 2 ^ 24" unfolding m_def by (rule round_half_even_le_int)
  from assms e have small: "r < 2 powi 128" and y: "\<bar>y\<bar> = r"
    using m0 by (auto simp add: binary32_def r_def split: if_splits)
  from assms e have ysg: "y = (if x < 0 then - r else r)"
    by (auto simp add: r_def split: if_splits)
  have hi: "\<bar>y\<bar> < 2 powi (emax binary32)" using small y by (simp add: binary32_def)
  have "fp_round binary32 y = Fin y"
  proof (cases "m = 2 ^ 24")
    case True
    have r2: "r = real_of_int (2 ^ 23) * 2 powi (q + 1)"
      unfolding r_def True by (subst power_int_add) simp_all
    have "y = real_of_int (if x < 0 then - (2 ^ 23) else 2 ^ 23) * 2 powi (q + 1)"
      using ysg r2 by simp
    moreover have "\<bar>if x < 0 then - (2 ^ 23) else (2 ^ 23 :: int)\<bar> < 2 ^ prec binary32"
      by (simp add: binary32_def)
    moreover have "qmin binary32 \<le> q + 1" using q149 by (simp add: binary32_def)
    ultimately show ?thesis using hi by (rule fp_round_exact)
  next
    case False
    with m24 have "m < 2 ^ 24" by simp
    have "y = real_of_int (if x < 0 then - m else m) * 2 powi q"
      using ysg by (simp add: r_def)
    moreover have "\<bar>if x < 0 then - m else m\<bar> < 2 ^ prec binary32"
      using m0 \<open>m < 2 ^ 24\<close> by (simp add: binary32_def)
    moreover have "qmin binary32 \<le> q" using q149 by (simp add: binary32_def)
    ultimately show ?thesis using hi by (rule fp_round_exact)
  qed
  then show ?thesis by (simp add: is_float_def)
qed

lemma is_float_0: "is_float 0"
  by (simp add: is_float_def fp_round_def)

lemma fp_convert_is_float: "is_float (fp_val (fp_convert binary32 v))"
proof (cases v)
  case (Fin x)
  show ?thesis
  proof (cases "fp_round binary32 x")
    case (Fin y)
    then show ?thesis using fp_round_is_float [of x y] \<open>v = Fin x\<close> by simp
  qed (simp_all add: \<open>v = Fin x\<close> is_float_0)
qed (simp_all add: is_float_0)

text \<open>Every bit pattern decodes to a \<open>float\<close>.\<close>

lemma f32_of_bits_is_float: "is_float (fp_val (f32_of_bits w))"
proof -
  define s where "s = bit w 31"
  define e where "e = uint (drop_bit 23 w AND 0xFF)"
  define m where "m = uint (w AND 0x7FFFFF)"
  have v: "f32_of_bits w =
      (if e = 255 then (if m = 0 then fp_inf s else NaN)
       else if e = 0 then
         (if m = 0 then fp_zero s
          else Fin ((if s then - 1 else 1) * real_of_int m * 2 powi (- 149)))
       else Fin ((if s then - 1 else 1) * real_of_int (2 ^ 23 + m) * 2 powi (e - 150)))"
    by (simp only: f32_of_bits_def Let_def s_def e_def m_def)
  have "w AND 0x7FFFFF \<le> 0x7FFFFF" by (rule word_and_le1)
  then have m1: "m \<le> 8388607" by (simp add: m_def word_le_def)
  have m0: "0 \<le> m" by (simp add: m_def)
  have "drop_bit 23 w AND 0xFF \<le> 0xFF" by (rule word_and_le1)
  then have e1: "e \<le> 255" by (simp add: e_def word_le_def)
  have e0: "0 \<le> e" by (simp add: e_def)
  show ?thesis
  proof (cases "e = 255 \<or> (e = 0 \<and> m = 0)")
    case True
    then show ?thesis unfolding v by (auto simp add: fp_inf_def fp_zero_def is_float_0)
  next
    case False
    show ?thesis
    proof (cases "e = 0")
      case True
      with False have mz: "m \<noteq> 0" by simp
      define y where "y = (if s then - 1 else 1) * real_of_int m * 2 powi (- 149)"
      have y: "y = real_of_int (if s then - m else m) * 2 powi (- 149)" by (simp add: y_def)
      have n: "\<bar>if s then - m else m\<bar> < 2 ^ prec binary32"
        using m0 m1 by (simp add: binary32_def)
      have k: "qmin binary32 \<le> - 149" by (simp add: binary32_def)
      have "\<bar>y\<bar> = real_of_int m * 2 powi (- 149)" using m0 by (simp add: y_def abs_mult)
      also have "\<dots> \<le> 8388607 * 2 powi (- 149)"
        using m1 by (intro mult_right_mono) simp_all
      also have "\<dots> < 2 powi 128" by (simp add: power_int_minus)
      finally have hi: "\<bar>y\<bar> < 2 powi (emax binary32)" by (simp add: binary32_def)
      from y n k hi have "fp_round binary32 y = Fin y" by (rule fp_round_exact)
      then show ?thesis unfolding v using True mz by (simp add: is_float_def y_def)
    next
      case nz: False
      with False e0 e1 have er: "1 \<le> e" "e \<le> 254" by simp_all
      define y where "y = (if s then - 1 else 1) * real_of_int (2 ^ 23 + m) * 2 powi (e - 150)"
      have y: "y = real_of_int (if s then - (2 ^ 23 + m) else 2 ^ 23 + m) * 2 powi (e - 150)"
        by (simp add: y_def)
      have n: "\<bar>if s then - (2 ^ 23 + m) else 2 ^ 23 + m\<bar> < 2 ^ prec binary32"
        using m0 m1 by (simp add: binary32_def)
      have k: "qmin binary32 \<le> e - 150" using er by (simp add: binary32_def)
      have "\<bar>y\<bar> = real_of_int (2 ^ 23 + m) * 2 powi (e - 150)"
        using m0 by (simp add: y_def abs_mult)
      also have "\<dots> < 2 ^ 24 * 2 powi (e - 150)"
        using m1 by (intro mult_strict_right_mono) simp_all
      also have "\<dots> = 2 powi (e - 126)"
      proof -
        have "(2::real) powi (e - 126) = 2 powi ((e - 150) + 24)" by simp
        also have "\<dots> = 2 powi (e - 150) * 2 ^ 24" by (subst power_int_add) simp_all
        finally show ?thesis by simp
      qed
      also have "\<dots> \<le> 2 powi 128" using er by (intro power_int_increasing) simp_all
      finally have hi: "\<bar>y\<bar> < 2 powi (emax binary32)" by (simp add: binary32_def)
      from y n k hi have "fp_round binary32 y = Fin y" by (rule fp_round_exact)
      then show ?thesis unfolding v using nz er by (simp add: is_float_def y_def)
    qed
  qed
qed

text \<open>Every value \<open>getSMCrpm\<close> returns is a \<open>float\<close>, as its return type says.\<close>

lemma getSMCrpm_is_float:
  assumes "getSMCrpm svc k w = Some (v, w')"
  shows "is_float (fp_val v)"
proof -
  have m1: "is_float (- 1)" by (simp add: is_float_def fp_eval)
  have fb: "\<And>bs f. float_of_bytes bs = Some f \<Longrightarrow> is_float (fp_val f)"
    by (auto simp add: float_of_bytes_def f32_of_bits_is_float split: if_splits)
  have sf: "\<And>bs n f. smc_strtof bs n 2 = Some f \<Longrightarrow> is_float (fp_val f)"
    by (auto simp add: smc_strtof_def fp_convert_is_float split: option.splits)
  from assms show ?thesis
    by (auto simp add: getSMCrpm_def m1 dest: fb sf split: option.splits if_splits)
qed

subsection \<open>A pass of the loop and the loop\<close>

lemma dec_digits_ne: "dec_digits n \<noteq> []"
  by (subst dec_digits.simps) simp

lemma dec_digits_two: "10 \<le> n \<Longrightarrow> 2 \<le> length (dec_digits n)"
proof -
  assume "10 \<le> n"
  then have "dec_digits n = dec_digits (n div 10) @ [char_of (48 + n mod 10)]"
    by (subst dec_digits.simps) simp
  moreover have "1 \<le> length (dec_digits (n div 10))"
    using dec_digits_ne [of "n div 10"] by (cases "dec_digits (n div 10)") simp_all
  ultimately show ?thesis by simp
qed

lemma sprintf_d_one: "length (sprintf_d i) \<le> 1 \<Longrightarrow> 0 \<le> i \<and> i \<le> 9"
proof (rule ccontr)
  assume len: "length (sprintf_d i) \<le> 1" and out: "\<not> (0 \<le> i \<and> i \<le> 9)"
  show False
  proof (cases "i < 0")
    case True
    then have "length (sprintf_d i) = Suc (length (dec_digits (nat (- i))))"
      by (simp add: sprintf_d_def)
    moreover have "1 \<le> length (dec_digits (nat (- i)))"
      using dec_digits_ne [of "nat (- i)"] by (cases "dec_digits (nat (- i))") simp_all
    ultimately show False using len by simp
  next
    case False
    with out have "10 \<le> nat i" by simp
    then have "2 \<le> length (dec_digits (nat i))" by (rule dec_digits_two)
    with False len show False by (simp add: sprintf_d_def)
  qed
qed

text \<open>A key is formatted without overflow only for the indices 0 to 9.\<close>

lemma sprintf_key_fits:
  assumes "sprintf_key ''F'' i suf = Some k" and "length suf = 2"
  shows "0 \<le> i \<and> i \<le> 9"
proof -
  from assms have "length (sprintf_d i) \<le> 1"
    by (simp add: sprintf_key_def Let_def split: if_splits)
  then show ?thesis by (rule sprintf_d_one)
qed

text \<open>
  The switch has a third label, for the index 63, which no pass reaches: its key would not
  fit the buffer.
\<close>

lemma fan_label_cases:
  "fan_label nFans 0 fanID = (if nFans = 1 then Some ''Main'' else Some ''Left'')"
  "fan_label nFans 1 fanID = Some ''Right''"
  "fan_label nFans 63 fanID = Some ''Other''"
  "2 \<le> i \<Longrightarrow> i \<noteq> 63 \<Longrightarrow> fan_label nFans i fanID = fanID"
  by (simp_all add: fan_label_def)

lemma fan_body_defined:
  assumes "fan_body svc nFans i w fanID = Some r"
  shows "0 \<le> i \<and> i \<le> 9"
proof -
  from assms obtain k where "sprintf_key ''F'' i ''ID'' = Some k"
    by (auto simp add: fan_body_def split: Option.bind_splits)
  then show ?thesis by (rule sprintf_key_fits) simp
qed

lemma fan_body_cases:
  assumes "fan_body svc nFans i w fanID = Some (w', fanID', line)"
  shows "(fanID' = fanID \<and> line = None)
       \<or> (fanID' = fan_label nFans i fanID
          \<and> (line = None
             \<or> (\<exists>cur pct. line = Some \<lparr>fan_index = i, sensor = fanID', rpm = cur, percent = pct\<rparr>)))"
  using assms
  by (auto simp add: fan_body_def Let_def split: Option.bind_splits if_splits prod.splits)

text \<open>
  A pass in which the four reads succeed and return no negative value: it runs the switch,
  and prints its line when the current speed is above zero.
\<close>

lemma fan_body_reads:
  assumes "sprintf_key ''F'' i ''ID'' = Some kid" and "sprintf_key ''F'' i ''Ac'' = Some kac"
    and "sprintf_key ''F'' i ''Mn'' = Some kmn" and "sprintf_key ''F'' i ''Mx'' = Some kmx"
    and "SMCReadKey svc kid w = Some (kIOReturnSuccess, val, w1)"
    and "getSMCrpm svc kac w1 = Some (cur, w2)" and "\<not> fp_lt cur (Fin 0)"
    and "getSMCrpm svc kmn w2 = Some (mn, w3)" and "\<not> fp_lt mn (Fin 0)"
    and "getSMCrpm svc kmx w3 = Some (mx, w4)" and "\<not> fp_lt mx (Fin 0)"
  shows "fan_body svc nFans i w fanID
       = Some (w4, fan_label nFans i fanID,
           if fp_lt (Fin 0) cur
           then Some \<lparr>fan_index = i, sensor = fan_label nFans i fanID, rpm = cur,
                   percent = fan_percent cur mn mx\<rparr>
           else None)"
  using assms by (simp add: fan_body_def Let_def)

lemma fans_loop_none: "nFans \<le> i \<Longrightarrow> fans_loop svc nFans i w fanID out = Some (w, out)"
  by (simp add: fans_loop.simps)

lemma fans_loop_step:
  assumes "i < nFans" and "fan_body svc nFans i w fanID = Some (w', fanID', line)"
  shows "fans_loop svc nFans i w fanID out
       = fans_loop svc nFans (i + 1) w' fanID' (out @ (case line of None \<Rightarrow> [] | Some l \<Rightarrow> [l]))"
  using assms by (subst fans_loop.simps) simp

lemma fans_loop_last:
  assumes "nFans = i + 1" and "fan_body svc nFans i w fanID = Some (w', fanID', line)"
  shows "fans_loop svc nFans i w fanID out
       = Some (w', out @ (case line of None \<Rightarrow> [] | Some l \<Rightarrow> [l]))"
  using assms by (simp add: fans_loop_step fans_loop_none)

text \<open>
  What the loop prints from index \<open>i\<close> on, with \<open>fanID\<close> in the label buffer: the lines are
  added in order, each bears its index and, as label, what the switch of its pass or of an
  earlier pass left in the buffer.
\<close>

lemma fans_loop_lines:
  assumes "fans_loop svc nFans i w fanID out = Some (w', lines)"
  shows "\<exists>rest. lines = out @ rest \<and>
           (\<forall>l \<in> set rest.
              i \<le> fan_index l \<and> fan_index l < nFans \<and> fan_index l \<le> 9
              \<and> (fan_index l = 0 \<longrightarrow> sensor l = Some (if nFans = 1 then ''Main'' else ''Left''))
              \<and> (fan_index l = 1 \<longrightarrow> sensor l = Some ''Right'')
              \<and> (2 \<le> fan_index l \<longrightarrow>
                    sensor l = fanID
                    \<or> sensor l = Some (if nFans = 1 then ''Main'' else ''Left'')
                    \<or> sensor l = Some ''Right''))"
  using assms
proof (induction svc nFans i w fanID out rule: fans_loop.induct)
  case (1 svc nFans i w fanID out)
  show ?case
  proof (cases "i < nFans")
    case False
    with "1.prems" have "lines = out" by (simp add: fans_loop.simps)
    then show ?thesis by simp
  next
    case True
    with "1.prems" obtain w1 f1 line where
      body: "fan_body svc nFans i w fanID = Some (w1, f1, line)"
      by (subst (asm) fans_loop.simps) (auto split: option.splits)
    let ?ls = "case line of None \<Rightarrow> [] | Some l \<Rightarrow> [l]"
    from "1.prems" True body
    have next_run: "fans_loop svc nFans (i + 1) w1 f1 (out @ ?ls) = Some (w', lines)"
      by (simp add: fans_loop_step)
    from "1.IH" [OF True body refl refl next_run]
    obtain rest where lines: "lines = (out @ ?ls) @ rest"
      and rest: "\<forall>l \<in> set rest.
              i + 1 \<le> fan_index l \<and> fan_index l < nFans \<and> fan_index l \<le> 9
              \<and> (fan_index l = 0 \<longrightarrow> sensor l = Some (if nFans = 1 then ''Main'' else ''Left''))
              \<and> (fan_index l = 1 \<longrightarrow> sensor l = Some ''Right'')
              \<and> (2 \<le> fan_index l \<longrightarrow>
                    sensor l = f1
                    \<or> sensor l = Some (if nFans = 1 then ''Main'' else ''Left'')
                    \<or> sensor l = Some ''Right'')"
      by blast
    from body have range: "0 \<le> i" "i \<le> 9" using fan_body_defined by blast+
    have lab: "fan_label nFans i fanID
        = (if i = 0 then Some (if nFans = 1 then ''Main'' else ''Left'')
           else if i = 1 then Some ''Right'' else fanID)"
      using range by (simp add: fan_label_def)
    from fan_body_cases [OF body] lab
    have f1: "f1 = fanID \<or> f1 = Some (if nFans = 1 then ''Main'' else ''Left'')
        \<or> f1 = Some ''Right''"
      by (auto split: if_splits)
    have here: "\<forall>l \<in> set ?ls.
              fan_index l = i
              \<and> (i = 0 \<longrightarrow> sensor l = Some (if nFans = 1 then ''Main'' else ''Left''))
              \<and> (i = 1 \<longrightarrow> sensor l = Some ''Right'')
              \<and> (2 \<le> i \<longrightarrow> sensor l = fanID)"
      using fan_body_cases [OF body] lab by (auto split: option.splits if_splits)
    have "lines = out @ (?ls @ rest)" using lines by simp
    moreover have "\<forall>l \<in> set (?ls @ rest).
              i \<le> fan_index l \<and> fan_index l < nFans \<and> fan_index l \<le> 9
              \<and> (fan_index l = 0 \<longrightarrow> sensor l = Some (if nFans = 1 then ''Main'' else ''Left''))
              \<and> (fan_index l = 1 \<longrightarrow> sensor l = Some ''Right'')
              \<and> (2 \<le> fan_index l \<longrightarrow>
                    sensor l = fanID
                    \<or> sensor l = Some (if nFans = 1 then ''Main'' else ''Left'')
                    \<or> sensor l = Some ''Right'')"
    proof
      fix l assume "l \<in> set (?ls @ rest)"
      then consider "l \<in> set ?ls" | "l \<in> set rest" by auto
      then show "i \<le> fan_index l \<and> fan_index l < nFans \<and> fan_index l \<le> 9
              \<and> (fan_index l = 0 \<longrightarrow> sensor l = Some (if nFans = 1 then ''Main'' else ''Left''))
              \<and> (fan_index l = 1 \<longrightarrow> sensor l = Some ''Right'')
              \<and> (2 \<le> fan_index l \<longrightarrow>
                    sensor l = fanID
                    \<or> sensor l = Some (if nFans = 1 then ''Main'' else ''Left'')
                    \<or> sensor l = Some ''Right'')"
      proof cases
        case 1
        with here True range show ?thesis by auto
      next
        case 2
        with rest f1 show ?thesis by fastforce
      qed
    qed
    ultimately show ?thesis by blast
  qed
qed

text \<open>The count of fans: a count of zero, or less, prints nothing.\<close>

lemma strtoul_base10_two: "smc_strtoul [b0, b1] 2 10 = Some (ucast b1)"
proof -
  have "(ucast (push_bit 8 (scast b0 :: 32 word)) :: 8 word) = 0"
    by (rule bit_word_eqI) (simp add: bit_ucast_iff bit_push_bit_iff)
  moreover have "(ucast (scast b1 :: 32 word) :: 8 word) = b1"
    by (rule bit_word_eqI) (auto simp add: bit_ucast_iff bit_word_scast_iff)
  moreover have "(ucast (ucast b1 :: 32 word) :: 8 word) = b1"
    by (rule bit_word_eqI) (auto simp add: bit_ucast_iff)
  ultimately show ?thesis
    by (simp add: smc_strtoul_def strtoul_loop.simps char_at_def shl_int_def)
qed

lemma strtoul_base10_one: "smc_strtoul (b # rest) 1 10 = Some (ucast b)"
proof -
  have "(ucast (scast b :: 32 word) :: 8 word) = b"
    by (rule bit_word_eqI) (auto simp add: bit_ucast_iff bit_word_scast_iff)
  then show ?thesis
    by (simp add: smc_strtoul_def strtoul_loop.simps char_at_def shl_int_def)
qed

lemma influxSMCfans_no_fans:
  assumes "SMCReadKey svc (c_str ''FNum'') w = Some (kIOReturnSuccess, val, w')"
    and "smc_strtoul (bytes val) (sint (dataSize val)) 10 = Some 0"
  shows "influxSMCfans svc w = Some (w', [])"
  using assms by (simp add: influxSMCfans_def fans_loop_none)

lemma influxSMCfans_count:
  assumes "SMCReadKey svc (c_str ''FNum'') w = Some (kIOReturnSuccess, val, w0)"
    and "smc_strtoul (bytes val) (sint (dataSize val)) 10 = Some n"
  shows "influxSMCfans svc w = fans_loop svc (sint n) 0 w0 None []"
  using assms by (simp add: influxSMCfans_def)

subsection \<open>Runs on a controller with a table of keys\<close>

lemma key_pack_ascii:
  fixes a b c d :: "8 word"
  assumes "a < 0x80" "b < 0x80" "c < 0x80" "d < 0x80"
  shows "\<exists>packed. smc_strtoul [a, b, c, d, 0] 4 16 = Some packed
           \<and> smc_ultostr packed = [a, b, c, d, 0]"
proof -
  have "smc_strtoul [a, b, c, d, 0] 4 16
      = Some (((push_bit 24 (ucast a) OR push_bit 16 (ucast b)) OR push_bit 8 (ucast c))
               OR ucast d)"
    using strtoul_ascii4 [OF assms, of "[0]"] by (simp only: pack4_or)
  moreover have "smc_ultostr (((push_bit 24 (ucast a) OR push_bit 16 (ucast b))
       OR push_bit 8 (ucast c)) OR ucast d) = [a, b, c, d, 0]"
    unfolding smc_ultostr_def by (simp only: unpack4)
  ultimately show ?thesis by blast
qed

text \<open>A read of a key that the table of the controller holds.\<close>

lemma key_service_read:
  fixes a b c d :: "8 word"
  assumes "a < 0x80" "b < 0x80" "c < 0x80" "d < 0x80"
    and "map_of tab [a, b, c, d, 0] = Some (info, bs)"
  shows "\<exists>w'. SMCReadKey (key_service tab) [a, b, c, d, 0] w
     = Some (kIOReturnSuccess,
         SMCVal_zero\<lparr>dataSize := SMCKeyData_keyInfo_t.dataSize info,
           dataType := smc_ultostr (SMCKeyData_keyInfo_t.dataType info), bytes := bs\<rparr>, w')"
proof -
  from key_pack_ascii [OF assms(1-4)] obtain packed
    where "smc_strtoul [a, b, c, d, 0] 4 16 = Some packed"
      and "smc_ultostr packed = [a, b, c, d, 0]"
    by blast
  with assms(5) show ?thesis
    by (simp add: SMCReadKey_def SMCCall_def key_service_def Let_def kIOReturnSuccess_def)
qed

lemma key_service_rpm:
  fixes a b c d :: "8 word"
  assumes "a < 0x80" "b < 0x80" "c < 0x80" "d < 0x80"
    and "map_of tab [a, b, c, d, 0] = Some (fpe2_info, bs)"
    and "smc_strtof bs 2 2 = Some v"
  shows "\<exists>w'. getSMCrpm (key_service tab) [a, b, c, d, 0] w = Some (v, w')"
proof -
  from key_service_read [OF assms(1-5), of w] obtain w'
    where "SMCReadKey (key_service tab) [a, b, c, d, 0] w
     = Some (kIOReturnSuccess,
         SMCVal_zero\<lparr>dataSize := SMCKeyData_keyInfo_t.dataSize fpe2_info,
           dataType := smc_ultostr (SMCKeyData_keyInfo_t.dataType fpe2_info), bytes := bs\<rparr>, w')"
    by blast
  with assms(6) show ?thesis
    by (simp add: getSMCrpm_def fpe2_info_def smc_ultostr_def strcmp_eq_def c_str_def)
qed

lemma strtof_pad: "smc_strtof (smc_bytes [b0, b1]) 2 2 = smc_strtof [b0, b1] 2 2"
  by (simp add: smc_strtof_def strtof_loop.simps char_at_def smc_bytes_def shl_int_def shr_int_def)

lemma fan_keys:
  "sprintf_key ''F'' 0 ''ID'' = Some (c_str ''F0ID'')"
  "sprintf_key ''F'' 0 ''Ac'' = Some (c_str ''F0Ac'')"
  "sprintf_key ''F'' 0 ''Mn'' = Some (c_str ''F0Mn'')"
  "sprintf_key ''F'' 0 ''Mx'' = Some (c_str ''F0Mx'')"
  "sprintf_key ''F'' 1 ''ID'' = Some (c_str ''F1ID'')"
  "sprintf_key ''F'' 1 ''Ac'' = Some (c_str ''F1Ac'')"
  "sprintf_key ''F'' 1 ''Mn'' = Some (c_str ''F1Mn'')"
  "sprintf_key ''F'' 1 ''Mx'' = Some (c_str ''F1Mx'')"
  "sprintf_key ''F'' 2 ''ID'' = Some (c_str ''F2ID'')"
  "sprintf_key ''F'' 2 ''Ac'' = Some (c_str ''F2Ac'')"
  "sprintf_key ''F'' 2 ''Mn'' = Some (c_str ''F2Mn'')"
  "sprintf_key ''F'' 2 ''Mx'' = Some (c_str ''F2Mx'')"
  by code_simp+

text \<open>The four reads of a pass on a controller that holds the four keys of the fan.\<close>

lemma key_service_pass:
  fixes n :: char
  assumes n: "(of_char n :: 8 word) < 0x80"
    and "map_of tab (c_str [CHR ''F'', n, CHR ''I'', CHR ''D'']) = Some (info, b)"
    and "map_of tab (c_str [CHR ''F'', n, CHR ''A'', CHR ''c'']) = Some (fpe2_info, bac)"
    and "map_of tab (c_str [CHR ''F'', n, CHR ''M'', CHR ''n'']) = Some (fpe2_info, bmn)"
    and "map_of tab (c_str [CHR ''F'', n, CHR ''M'', CHR ''x'']) = Some (fpe2_info, bmx)"
    and "smc_strtof bac 2 2 = Some cur"
    and "smc_strtof bmn 2 2 = Some mn"
    and "smc_strtof bmx 2 2 = Some mx"
  shows "\<exists>val w1 w2 w3 w4.
      SMCReadKey (key_service tab) (c_str [CHR ''F'', n, CHR ''I'', CHR ''D'']) w
        = Some (kIOReturnSuccess, val, w1)
    \<and> getSMCrpm (key_service tab) (c_str [CHR ''F'', n, CHR ''A'', CHR ''c'']) w1 = Some (cur, w2)
    \<and> getSMCrpm (key_service tab) (c_str [CHR ''F'', n, CHR ''M'', CHR ''n'']) w2 = Some (mn, w3)
    \<and> getSMCrpm (key_service tab) (c_str [CHR ''F'', n, CHR ''M'', CHR ''x'']) w3 = Some (mx, w4)"
proof -
  have k: "c_str [CHR ''F'', n, CHR ''I'', CHR ''D''] = [0x46, of_char n, 0x49, 0x44, 0]"
    "c_str [CHR ''F'', n, CHR ''A'', CHR ''c''] = [0x46, of_char n, 0x41, 0x63, 0]"
    "c_str [CHR ''F'', n, CHR ''M'', CHR ''n''] = [0x46, of_char n, 0x4D, 0x6E, 0]"
    "c_str [CHR ''F'', n, CHR ''M'', CHR ''x''] = [0x46, of_char n, 0x4D, 0x78, 0]"
    by (simp_all add: c_str_def)
  have a: "(0x46 :: 8 word) < 0x80" "(0x49 :: 8 word) < 0x80" "(0x44 :: 8 word) < 0x80"
    "(0x41 :: 8 word) < 0x80" "(0x63 :: 8 word) < 0x80" "(0x4D :: 8 word) < 0x80"
    "(0x6E :: 8 word) < 0x80" "(0x78 :: 8 word) < 0x80"
    by simp_all
  from key_service_read [OF a(1) n a(2) a(3), of tab info b w] assms(2)
  obtain w1 val where r1: "SMCReadKey (key_service tab) [0x46, of_char n, 0x49, 0x44, 0] w
      = Some (kIOReturnSuccess, val, w1)"
    unfolding k by blast
  from key_service_rpm [OF a(1) n a(4) a(5), of tab bac cur w1] assms(3,6)
  obtain w2 where r2: "getSMCrpm (key_service tab) [0x46, of_char n, 0x41, 0x63, 0] w1
      = Some (cur, w2)"
    unfolding k by blast
  from key_service_rpm [OF a(1) n a(6) a(7), of tab bmn mn w2] assms(4,7)
  obtain w3 where r3: "getSMCrpm (key_service tab) [0x46, of_char n, 0x4D, 0x6E, 0] w2
      = Some (mn, w3)"
    unfolding k by blast
  from key_service_rpm [OF a(1) n a(6) a(8), of tab bmx mx w3] assms(5,8)
  obtain w4 where r4: "getSMCrpm (key_service tab) [0x46, of_char n, 0x4D, 0x78, 0] w3
      = Some (mx, w4)"
    unfolding k by blast
  from r1 r2 r3 r4 show ?thesis unfolding k by blast
qed

lemma fpe2_values:
  "smc_strtof (smc_bytes [0x2E, 0xE0]) 2 2 = Some (Fin 3000)"
  "smc_strtof (smc_bytes [0x0F, 0xA0]) 2 2 = Some (Fin 1000)"
  "smc_strtof (smc_bytes [0x4E, 0x20]) 2 2 = Some (Fin 5000)"
  "smc_strtof (smc_bytes [0x5D, 0xC0]) 2 2 = Some (Fin 6000)"
  "smc_strtof (smc_bytes [0x07, 0xD0]) 2 2 = Some (Fin 500)"
  "smc_strtof (smc_bytes [0x1F, 0x40]) 2 2 = Some (Fin 2000)"
  "smc_strtof (smc_bytes [0x0C, 0x80]) 2 2 = Some (Fin 800)"
  "smc_strtof (smc_bytes [0x17, 0x70]) 2 2 = Some (Fin 1500)"
  unfolding strtof_pad
  by (simp_all add: smc_strtof_def strtof_loop.simps char_at_def shl_int_def shr_int_def fp_eval)

lemma one_fan_pass:
  assumes "smc_strtof (smc_bytes ac) 2 2 = Some cur"
    and "smc_strtof (smc_bytes mn) 2 2 = Some m"
    and "smc_strtof (smc_bytes mx) 2 2 = Some M"
  shows "\<exists>val w1 w2 w3 w4.
      SMCReadKey (one_fan ac mn mx) (c_str ''F0ID'') w = Some (kIOReturnSuccess, val, w1)
    \<and> getSMCrpm (one_fan ac mn mx) (c_str ''F0Ac'') w1 = Some (cur, w2)
    \<and> getSMCrpm (one_fan ac mn mx) (c_str ''F0Mn'') w2 = Some (m, w3)
    \<and> getSMCrpm (one_fan ac mn mx) (c_str ''F0Mx'') w3 = Some (M, w4)"
  unfolding one_fan_def
  by (rule key_service_pass [OF _ _ _ _ _ assms]) (simp_all add: fan_table_def c_str_def)

lemma key_service_count:
  assumes "map_of tab (c_str ''FNum'') = Some (ui8_info, smc_bytes [b])"
  shows "\<exists>val w0. SMCReadKey (key_service tab) (c_str ''FNum'') w
             = Some (kIOReturnSuccess, val, w0)
           \<and> smc_strtoul (bytes val) (sint (dataSize val)) 10 = Some (ucast b)"
proof -
  have k: "c_str ''FNum'' = [0x46, 0x4E, 0x75, 0x6D, 0]" by (simp add: c_str_def)
  have a: "(0x46 :: 8 word) < 0x80" "(0x4E :: 8 word) < 0x80" "(0x75 :: 8 word) < 0x80"
    "(0x6D :: 8 word) < 0x80"
    by simp_all
  from key_service_read [OF a, of tab ui8_info "smc_bytes [b]" w] assms
  obtain w0 where "SMCReadKey (key_service tab) (c_str ''FNum'') w
      = Some (kIOReturnSuccess,
          SMCVal_zero\<lparr>dataSize := SMCKeyData_keyInfo_t.dataSize ui8_info,
            dataType := smc_ultostr (SMCKeyData_keyInfo_t.dataType ui8_info),
            bytes := smc_bytes [b]\<rparr>, w0)"
    unfolding k by blast
  moreover have "smc_strtoul (smc_bytes [b]) 1 10 = Some (ucast b)"
    unfolding smc_bytes_def by (simp add: strtoul_base10_one)
  ultimately show ?thesis by (simp add: ui8_info_def)
qed

text \<open>The run on a controller with one fan whose three speeds are above zero.\<close>

lemma one_fan_run:
  assumes v: "smc_strtof (smc_bytes ac) 2 2 = Some cur"
    "smc_strtof (smc_bytes mn) 2 2 = Some m"
    "smc_strtof (smc_bytes mx) 2 2 = Some M"
    and g: "\<not> fp_lt cur (Fin 0)" "\<not> fp_lt m (Fin 0)" "\<not> fp_lt M (Fin 0)"
    and p: "fp_lt (Fin 0) cur"
  shows "map_option snd (influxSMCfans (one_fan ac mn mx) w)
       = Some [\<lparr>fan_index = 0, sensor = Some ''Main'', rpm = cur,
                percent = fan_percent cur m M\<rparr>]"
proof -
  have "map_of ((c_str ''FNum'', ui8_info, smc_bytes [1]) # fan_table ''0'' ac mn mx)
      (c_str ''FNum'') = Some (ui8_info, smc_bytes [1])"
    by simp
  from key_service_count [OF this, of w] obtain val w0
    where c: "SMCReadKey (one_fan ac mn mx) (c_str ''FNum'') w
        = Some (kIOReturnSuccess, val, w0)"
      and n: "smc_strtoul (bytes val) (sint (dataSize val)) 10 = Some (ucast (1 :: 8 word))"
    unfolding one_fan_def by blast
  from one_fan_pass [OF v, of w0] obtain val' w1 w2 w3 w4
    where r: "SMCReadKey (one_fan ac mn mx) (c_str ''F0ID'') w0
        = Some (kIOReturnSuccess, val', w1)"
      "getSMCrpm (one_fan ac mn mx) (c_str ''F0Ac'') w1 = Some (cur, w2)"
      "getSMCrpm (one_fan ac mn mx) (c_str ''F0Mn'') w2 = Some (m, w3)"
      "getSMCrpm (one_fan ac mn mx) (c_str ''F0Mx'') w3 = Some (M, w4)"
    by blast
  have "fan_body (one_fan ac mn mx) 1 0 w0 None
      = Some (w4, fan_label 1 0 None,
          if fp_lt (Fin 0) cur
          then Some \<lparr>fan_index = 0, sensor = fan_label 1 0 None, rpm = cur,
                  percent = fan_percent cur m M\<rparr>
          else None)"
    by (rule fan_body_reads [OF fan_keys(1-4) r(1) r(2) g(1) r(3) g(2) r(4) g(3)])
  then have b: "fan_body (one_fan ac mn mx) 1 0 w0 None
      = Some (w4, Some ''Main'',
          Some \<lparr>fan_index = 0, sensor = Some ''Main'', rpm = cur, percent = fan_percent cur m M\<rparr>)"
    using p by (simp add: fan_label_def)
  have "fans_loop (one_fan ac mn mx) 1 0 w0 None []
      = Some (w4, [\<lparr>fan_index = 0, sensor = Some ''Main'', rpm = cur,
                    percent = fan_percent cur m M\<rparr>])"
    using fans_loop_last [OF _ b, of "[]"] by simp
  moreover have "influxSMCfans (one_fan ac mn mx) w
      = fans_loop (one_fan ac mn mx) (sint (ucast (1 :: 8 word) :: 32 word)) 0 w0 None []"
    using c n by (rule influxSMCfans_count)
  ultimately show ?thesis by simp
qed

lemma three_fans_pass:
  "\<exists>val w1 w2 w3 w4.
      SMCReadKey three_fans (c_str ''F0ID'') w = Some (kIOReturnSuccess, val, w1)
    \<and> getSMCrpm three_fans (c_str ''F0Ac'') w1 = Some (Fin 3000, w2)
    \<and> getSMCrpm three_fans (c_str ''F0Mn'') w2 = Some (Fin 1000, w3)
    \<and> getSMCrpm three_fans (c_str ''F0Mx'') w3 = Some (Fin 5000, w4)"
  "\<exists>val w1 w2 w3 w4.
      SMCReadKey three_fans (c_str ''F1ID'') w = Some (kIOReturnSuccess, val, w1)
    \<and> getSMCrpm three_fans (c_str ''F1Ac'') w1 = Some (Fin 3000, w2)
    \<and> getSMCrpm three_fans (c_str ''F1Mn'') w2 = Some (Fin 1000, w3)
    \<and> getSMCrpm three_fans (c_str ''F1Mx'') w3 = Some (Fin 5000, w4)"
  "\<exists>val w1 w2 w3 w4.
      SMCReadKey three_fans (c_str ''F2ID'') w = Some (kIOReturnSuccess, val, w1)
    \<and> getSMCrpm three_fans (c_str ''F2Ac'') w1 = Some (Fin 3000, w2)
    \<and> getSMCrpm three_fans (c_str ''F2Mn'') w2 = Some (Fin 1000, w3)
    \<and> getSMCrpm three_fans (c_str ''F2Mx'') w3 = Some (Fin 5000, w4)"
  unfolding three_fans_def
  by (rule key_service_pass [OF _ _ _ _ _ fpe2_values(1) fpe2_values(2) fpe2_values(3)];
      simp add: fan_table_def c_str_def)+

lemma three_fans_count:
  "\<exists>val w0. SMCReadKey three_fans (c_str ''FNum'') w = Some (kIOReturnSuccess, val, w0)
           \<and> smc_strtoul (bytes val) (sint (dataSize val)) 10 = Some 3"
proof -
  have "map_of ((c_str ''FNum'', ui8_info, smc_bytes [3])
     # fan_table ''0'' [0x2E, 0xE0] [0x0F, 0xA0] [0x4E, 0x20]
     @ fan_table ''1'' [0x2E, 0xE0] [0x0F, 0xA0] [0x4E, 0x20]
     @ fan_table ''2'' [0x2E, 0xE0] [0x0F, 0xA0] [0x4E, 0x20]) (c_str ''FNum'')
     = Some (ui8_info, smc_bytes [3])"
    by simp
  from key_service_count [OF this, of w] show ?thesis
    unfolding three_fans_def by simp
qed

subsection \<open>The labels\<close>

text \<open>
  C9. A pass of the loop of \<open>influxSMCfans\<close> completes only for an index from 0 to 9. When it
  prints a line, the line bears the index of the pass and the content of the label buffer
  after the switch: \<open>Main\<close> or \<open>Left\<close>, by the count, for fan 0, \<open>Right\<close> for fan 1, and for an
  index from 2 on what the buffer held before the pass, which the pass leaves as it was.
  A pass whose four reads succeed with no negative value runs the switch and, when the
  current speed is above zero, prints that line. In a whole run, every line of fan 0 is
  labelled \<open>Main\<close> or \<open>Left\<close> by the count, every line of fan 1 \<open>Right\<close>, and a line of a fan
  from 2 on bears no label of its own: the buffer is either still unwritten or holds the
  \<open>Left\<close> or \<open>Right\<close> of an earlier fan.
\<close>

theorem fan_labels:
  "(fan_body svc nFans i w fanID = Some (w', fanID', line) \<longrightarrow>
      0 \<le> i \<and> i \<le> 9
      \<and> (2 \<le> i \<longrightarrow> fanID' = fanID)
      \<and> (\<forall>l. line = Some l \<longrightarrow>
            fan_index l = i \<and> sensor l = fanID'
            \<and> fanID' = (if i = 0 then Some (if nFans = 1 then ''Main'' else ''Left'')
                        else if i = 1 then Some ''Right'' else fanID)))
   \<and> (sprintf_key ''F'' i ''ID'' = Some kid \<and> sprintf_key ''F'' i ''Ac'' = Some kac
      \<and> sprintf_key ''F'' i ''Mn'' = Some kmn \<and> sprintf_key ''F'' i ''Mx'' = Some kmx
      \<and> SMCReadKey svc kid w = Some (kIOReturnSuccess, val, w1)
      \<and> getSMCrpm svc kac w1 = Some (cur, w2) \<and> \<not> fp_lt cur (Fin 0)
      \<and> getSMCrpm svc kmn w2 = Some (mn, w3) \<and> \<not> fp_lt mn (Fin 0)
      \<and> getSMCrpm svc kmx w3 = Some (mx, w4) \<and> \<not> fp_lt mx (Fin 0)
      \<longrightarrow> fan_body svc nFans i w fanID
          = Some (w4,
              (if i = 0 then Some (if nFans = 1 then ''Main'' else ''Left'')
               else if i = 1 then Some ''Right'' else fanID),
              if fp_lt (Fin 0) cur
              then Some \<lparr>fan_index = i,
                      sensor = (if i = 0 then Some (if nFans = 1 then ''Main'' else ''Left'')
                                else if i = 1 then Some ''Right'' else fanID),
                      rpm = cur, percent = fan_percent cur mn mx\<rparr>
              else None))
   \<and> (SMCReadKey svc (c_str ''FNum'') ws = Some (kIOReturnSuccess, val0, w0)
      \<and> smc_strtoul (bytes val0) (sint (dataSize val0)) 10 = Some n
      \<and> influxSMCfans svc ws = Some (wn, lines)
      \<longrightarrow> (\<forall>l \<in> set lines.
            0 \<le> fan_index l \<and> fan_index l < sint n \<and> fan_index l \<le> 9
            \<and> (fan_index l = 0 \<longrightarrow> sensor l = Some (if sint n = 1 then ''Main'' else ''Left''))
            \<and> (fan_index l = 1 \<longrightarrow> sensor l = Some ''Right'')
            \<and> (2 \<le> fan_index l \<longrightarrow>
                  sensor l = None \<or> sensor l = Some ''Left'' \<or> sensor l = Some ''Right'')))"
proof (intro conjI impI)
  assume b: "fan_body svc nFans i w fanID = Some (w', fanID', line)"
  then have r: "0 \<le> i \<and> i \<le> 9" by (rule fan_body_defined)
  then show "0 \<le> i" and "i \<le> 9" by simp_all
  have lab: "fan_label nFans i fanID
      = (if i = 0 then Some (if nFans = 1 then ''Main'' else ''Left'')
         else if i = 1 then Some ''Right'' else fanID)"
    using r by (simp add: fan_label_def)
  from fan_body_cases [OF b] lab show "2 \<le> i \<Longrightarrow> fanID' = fanID" by auto
  from fan_body_cases [OF b] lab
  show "\<forall>l. line = Some l \<longrightarrow>
            fan_index l = i \<and> sensor l = fanID'
            \<and> fanID' = (if i = 0 then Some (if nFans = 1 then ''Main'' else ''Left'')
                        else if i = 1 then Some ''Right'' else fanID)"
    by auto
next
  assume h: "sprintf_key ''F'' i ''ID'' = Some kid \<and> sprintf_key ''F'' i ''Ac'' = Some kac
      \<and> sprintf_key ''F'' i ''Mn'' = Some kmn \<and> sprintf_key ''F'' i ''Mx'' = Some kmx
      \<and> SMCReadKey svc kid w = Some (kIOReturnSuccess, val, w1)
      \<and> getSMCrpm svc kac w1 = Some (cur, w2) \<and> \<not> fp_lt cur (Fin 0)
      \<and> getSMCrpm svc kmn w2 = Some (mn, w3) \<and> \<not> fp_lt mn (Fin 0)
      \<and> getSMCrpm svc kmx w3 = Some (mx, w4) \<and> \<not> fp_lt mx (Fin 0)"
  then have "sprintf_key ''F'' i ''ID'' = Some kid" by simp
  then have "0 \<le> i \<and> i \<le> 9" by (rule sprintf_key_fits) simp
  then have lab: "fan_label nFans i fanID
      = (if i = 0 then Some (if nFans = 1 then ''Main'' else ''Left'')
         else if i = 1 then Some ''Right'' else fanID)"
    by (simp add: fan_label_def)
  from h have k: "sprintf_key ''F'' i ''ID'' = Some kid" "sprintf_key ''F'' i ''Ac'' = Some kac"
    "sprintf_key ''F'' i ''Mn'' = Some kmn" "sprintf_key ''F'' i ''Mx'' = Some kmx"
    and r: "SMCReadKey svc kid w = Some (kIOReturnSuccess, val, w1)"
    "getSMCrpm svc kac w1 = Some (cur, w2)" "getSMCrpm svc kmn w2 = Some (mn, w3)"
    "getSMCrpm svc kmx w3 = Some (mx, w4)"
    and g: "\<not> fp_lt cur (Fin 0)" "\<not> fp_lt mn (Fin 0)" "\<not> fp_lt mx (Fin 0)"
    by simp_all
  have "fan_body svc nFans i w fanID
       = Some (w4, fan_label nFans i fanID,
           if fp_lt (Fin 0) cur
           then Some \<lparr>fan_index = i, sensor = fan_label nFans i fanID, rpm = cur,
                   percent = fan_percent cur mn mx\<rparr>
           else None)"
    by (rule fan_body_reads [OF k r(1) r(2) g(1) r(3) g(2) r(4) g(3)])
  then show "fan_body svc nFans i w fanID
          = Some (w4,
              (if i = 0 then Some (if nFans = 1 then ''Main'' else ''Left'')
               else if i = 1 then Some ''Right'' else fanID),
              if fp_lt (Fin 0) cur
              then Some \<lparr>fan_index = i,
                      sensor = (if i = 0 then Some (if nFans = 1 then ''Main'' else ''Left'')
                                else if i = 1 then Some ''Right'' else fanID),
                      rpm = cur, percent = fan_percent cur mn mx\<rparr>
              else None)"
    by (simp only: lab)
next
  assume h: "SMCReadKey svc (c_str ''FNum'') ws = Some (kIOReturnSuccess, val0, w0)
      \<and> smc_strtoul (bytes val0) (sint (dataSize val0)) 10 = Some n
      \<and> influxSMCfans svc ws = Some (wn, lines)"
  then have "fans_loop svc (sint n) 0 w0 None [] = Some (wn, lines)"
    using influxSMCfans_count [of svc ws val0 w0 n] by simp
  from fans_loop_lines [OF this]
  have all: "\<forall>l \<in> set lines.
      0 \<le> fan_index l \<and> fan_index l < sint n \<and> fan_index l \<le> 9
      \<and> (fan_index l = 0 \<longrightarrow> sensor l = Some (if sint n = 1 then ''Main'' else ''Left''))
      \<and> (fan_index l = 1 \<longrightarrow> sensor l = Some ''Right'')
      \<and> (2 \<le> fan_index l \<longrightarrow>
            sensor l = None
            \<or> sensor l = Some (if sint n = 1 then ''Main'' else ''Left'')
            \<or> sensor l = Some ''Right'')"
    by simp
  show "\<forall>l \<in> set lines.
            0 \<le> fan_index l \<and> fan_index l < sint n \<and> fan_index l \<le> 9
            \<and> (fan_index l = 0 \<longrightarrow> sensor l = Some (if sint n = 1 then ''Main'' else ''Left''))
            \<and> (fan_index l = 1 \<longrightarrow> sensor l = Some ''Right'')
            \<and> (2 \<le> fan_index l \<longrightarrow>
                  sensor l = None \<or> sensor l = Some ''Left'' \<or> sensor l = Some ''Right'')"
  proof
    fix l assume "l \<in> set lines"
    with all have p: "0 \<le> fan_index l \<and> fan_index l < sint n \<and> fan_index l \<le> 9
      \<and> (fan_index l = 0 \<longrightarrow> sensor l = Some (if sint n = 1 then ''Main'' else ''Left''))
      \<and> (fan_index l = 1 \<longrightarrow> sensor l = Some ''Right'')
      \<and> (2 \<le> fan_index l \<longrightarrow>
            sensor l = None
            \<or> sensor l = Some (if sint n = 1 then ''Main'' else ''Left'')
            \<or> sensor l = Some ''Right'')"
      by blast
    then have "2 \<le> fan_index l \<Longrightarrow> sint n \<noteq> 1" by auto
    with p show "0 \<le> fan_index l \<and> fan_index l < sint n \<and> fan_index l \<le> 9
            \<and> (fan_index l = 0 \<longrightarrow> sensor l = Some (if sint n = 1 then ''Main'' else ''Left''))
            \<and> (fan_index l = 1 \<longrightarrow> sensor l = Some ''Right'')
            \<and> (2 \<le> fan_index l \<longrightarrow>
                  sensor l = None \<or> sensor l = Some ''Left'' \<or> sensor l = Some ''Right'')"
      by auto
  qed
qed

theorem fan_labels_witness:
  "\<exists>val0 w0 wa wb val2 b1 b2 b3 wc.
      SMCReadKey three_fans (c_str ''FNum'') \<lparr>device = (), calls = []\<rparr>
        = Some (kIOReturnSuccess, val0, w0)
    \<and> smc_strtoul (bytes val0) (sint (dataSize val0)) 10 = Some 3
    \<and> fan_body three_fans 3 0 w0 None
        = Some (wa, Some ''Left'',
            Some \<lparr>fan_index = 0, sensor = Some ''Left'', rpm = Fin 3000,
                 percent = fan_percent (Fin 3000) (Fin 1000) (Fin 5000)\<rparr>)
    \<and> fan_body three_fans 3 1 wa (Some ''Left'')
        = Some (wb, Some ''Right'',
            Some \<lparr>fan_index = 1, sensor = Some ''Right'', rpm = Fin 3000,
                 percent = fan_percent (Fin 3000) (Fin 1000) (Fin 5000)\<rparr>)
    \<and> sprintf_key ''F'' 2 ''ID'' = Some (c_str ''F2ID'')
    \<and> sprintf_key ''F'' 2 ''Ac'' = Some (c_str ''F2Ac'')
    \<and> sprintf_key ''F'' 2 ''Mn'' = Some (c_str ''F2Mn'')
    \<and> sprintf_key ''F'' 2 ''Mx'' = Some (c_str ''F2Mx'')
    \<and> SMCReadKey three_fans (c_str ''F2ID'') wb = Some (kIOReturnSuccess, val2, b1)
    \<and> getSMCrpm three_fans (c_str ''F2Ac'') b1 = Some (Fin 3000, b2)
    \<and> getSMCrpm three_fans (c_str ''F2Mn'') b2 = Some (Fin 1000, b3)
    \<and> getSMCrpm three_fans (c_str ''F2Mx'') b3 = Some (Fin 5000, wc)
    \<and> fan_body three_fans 3 2 wb (Some ''Right'')
        = Some (wc, Some ''Right'',
            Some \<lparr>fan_index = 2, sensor = Some ''Right'', rpm = Fin 3000,
                 percent = fan_percent (Fin 3000) (Fin 1000) (Fin 5000)\<rparr>)
    \<and> influxSMCfans three_fans \<lparr>device = (), calls = []\<rparr>
        = Some (wc,
            [\<lparr>fan_index = 0, sensor = Some ''Left'', rpm = Fin 3000,
               percent = fan_percent (Fin 3000) (Fin 1000) (Fin 5000)\<rparr>,
             \<lparr>fan_index = 1, sensor = Some ''Right'', rpm = Fin 3000,
               percent = fan_percent (Fin 3000) (Fin 1000) (Fin 5000)\<rparr>,
             \<lparr>fan_index = 2, sensor = Some ''Right'', rpm = Fin 3000,
               percent = fan_percent (Fin 3000) (Fin 1000) (Fin 5000)\<rparr>])"
proof -
  let ?W = "\<lparr>device = (), calls = []\<rparr> :: unit smc_world"
  from three_fans_count [of ?W] obtain val0 w0
    where c: "SMCReadKey three_fans (c_str ''FNum'') ?W = Some (kIOReturnSuccess, val0, w0)"
      and n: "smc_strtoul (bytes val0) (sint (dataSize val0)) 10 = Some 3"
    by blast
  from three_fans_pass(1) [of w0] obtain val a1 a2 a3 wa
    where ra: "SMCReadKey three_fans (c_str ''F0ID'') w0 = Some (kIOReturnSuccess, val, a1)
      \<and> getSMCrpm three_fans (c_str ''F0Ac'') a1 = Some (Fin 3000, a2)
      \<and> getSMCrpm three_fans (c_str ''F0Mn'') a2 = Some (Fin 1000, a3)
      \<and> getSMCrpm three_fans (c_str ''F0Mx'') a3 = Some (Fin 5000, wa)"
    by blast
  from three_fans_pass(2) [of wa] obtain val1 c1 c2 c3 wb
    where rb: "SMCReadKey three_fans (c_str ''F1ID'') wa = Some (kIOReturnSuccess, val1, c1)
      \<and> getSMCrpm three_fans (c_str ''F1Ac'') c1 = Some (Fin 3000, c2)
      \<and> getSMCrpm three_fans (c_str ''F1Mn'') c2 = Some (Fin 1000, c3)
      \<and> getSMCrpm three_fans (c_str ''F1Mx'') c3 = Some (Fin 5000, wb)"
    by blast
  from three_fans_pass(3) [of wb] obtain val2 b1 b2 b3 wc
    where rc: "SMCReadKey three_fans (c_str ''F2ID'') wb = Some (kIOReturnSuccess, val2, b1)
      \<and> getSMCrpm three_fans (c_str ''F2Ac'') b1 = Some (Fin 3000, b2)
      \<and> getSMCrpm three_fans (c_str ''F2Mn'') b2 = Some (Fin 1000, b3)
      \<and> getSMCrpm three_fans (c_str ''F2Mx'') b3 = Some (Fin 5000, wc)"
    by blast
  have g: "\<not> fp_lt (Fin 3000) (Fin 0)" "\<not> fp_lt (Fin 1000) (Fin 0)"
    "\<not> fp_lt (Fin 5000) (Fin 0)" and p: "fp_lt (Fin 0) (Fin 3000)"
    by (simp_all add: fp_lt_def)
  let ?P = "fan_percent (Fin 3000) (Fin 1000) (Fin 5000)"
  let ?L0 = "\<lparr>fan_index = 0, sensor = Some ''Left'', rpm = Fin 3000, percent = ?P\<rparr>"
  let ?L1 = "\<lparr>fan_index = 1, sensor = Some ''Right'', rpm = Fin 3000, percent = ?P\<rparr>"
  let ?L2 = "\<lparr>fan_index = 2, sensor = Some ''Right'', rpm = Fin 3000, percent = ?P\<rparr>"
  have h0: "sprintf_key ''F'' 0 ''ID'' = Some (c_str ''F0ID'')
      \<and> sprintf_key ''F'' 0 ''Ac'' = Some (c_str ''F0Ac'')
      \<and> sprintf_key ''F'' 0 ''Mn'' = Some (c_str ''F0Mn'')
      \<and> sprintf_key ''F'' 0 ''Mx'' = Some (c_str ''F0Mx'')
      \<and> SMCReadKey three_fans (c_str ''F0ID'') w0 = Some (kIOReturnSuccess, val, a1)
      \<and> getSMCrpm three_fans (c_str ''F0Ac'') a1 = Some (Fin 3000, a2)
      \<and> \<not> fp_lt (Fin 3000) (Fin 0)
      \<and> getSMCrpm three_fans (c_str ''F0Mn'') a2 = Some (Fin 1000, a3)
      \<and> \<not> fp_lt (Fin 1000) (Fin 0)
      \<and> getSMCrpm three_fans (c_str ''F0Mx'') a3 = Some (Fin 5000, wa)
      \<and> \<not> fp_lt (Fin 5000) (Fin 0)"
    using fan_keys(1-4) ra g by simp
  have h1: "sprintf_key ''F'' 1 ''ID'' = Some (c_str ''F1ID'')
      \<and> sprintf_key ''F'' 1 ''Ac'' = Some (c_str ''F1Ac'')
      \<and> sprintf_key ''F'' 1 ''Mn'' = Some (c_str ''F1Mn'')
      \<and> sprintf_key ''F'' 1 ''Mx'' = Some (c_str ''F1Mx'')
      \<and> SMCReadKey three_fans (c_str ''F1ID'') wa = Some (kIOReturnSuccess, val1, c1)
      \<and> getSMCrpm three_fans (c_str ''F1Ac'') c1 = Some (Fin 3000, c2)
      \<and> \<not> fp_lt (Fin 3000) (Fin 0)
      \<and> getSMCrpm three_fans (c_str ''F1Mn'') c2 = Some (Fin 1000, c3)
      \<and> \<not> fp_lt (Fin 1000) (Fin 0)
      \<and> getSMCrpm three_fans (c_str ''F1Mx'') c3 = Some (Fin 5000, wb)
      \<and> \<not> fp_lt (Fin 5000) (Fin 0)"
    using fan_keys(5-8) rb g by simp
  have h2: "sprintf_key ''F'' 2 ''ID'' = Some (c_str ''F2ID'')
      \<and> sprintf_key ''F'' 2 ''Ac'' = Some (c_str ''F2Ac'')
      \<and> sprintf_key ''F'' 2 ''Mn'' = Some (c_str ''F2Mn'')
      \<and> sprintf_key ''F'' 2 ''Mx'' = Some (c_str ''F2Mx'')
      \<and> SMCReadKey three_fans (c_str ''F2ID'') wb = Some (kIOReturnSuccess, val2, b1)
      \<and> getSMCrpm three_fans (c_str ''F2Ac'') b1 = Some (Fin 3000, b2)
      \<and> \<not> fp_lt (Fin 3000) (Fin 0)
      \<and> getSMCrpm three_fans (c_str ''F2Mn'') b2 = Some (Fin 1000, b3)
      \<and> \<not> fp_lt (Fin 1000) (Fin 0)
      \<and> getSMCrpm three_fans (c_str ''F2Mx'') b3 = Some (Fin 5000, wc)
      \<and> \<not> fp_lt (Fin 5000) (Fin 0)"
    using fan_keys(9-12) rc g by simp
  from fan_labels [where svc = three_fans and nFans = 3 and i = 0 and w = w0
      and fanID = None, THEN conjunct2, THEN conjunct1, THEN mp, OF h0]
  have p0: "fan_body three_fans 3 0 w0 None = Some (wa, Some ''Left'', Some ?L0)"
    using p by simp
  from fan_labels [where svc = three_fans and nFans = 3 and i = 1 and w = wa
      and fanID = "Some ''Left''", THEN conjunct2, THEN conjunct1, THEN mp, OF h1]
  have p1: "fan_body three_fans 3 1 wa (Some ''Left'') = Some (wb, Some ''Right'', Some ?L1)"
    using p by simp
  from fan_labels [where svc = three_fans and nFans = 3 and i = 2 and w = wb
      and fanID = "Some ''Right''", THEN conjunct2, THEN conjunct1, THEN mp, OF h2]
  have p2: "fan_body three_fans 3 2 wb (Some ''Right'') = Some (wc, Some ''Right'', Some ?L2)"
    using p by simp
  have "fans_loop three_fans 3 0 w0 None [] = Some (wc, [?L0, ?L1, ?L2])"
    using fans_loop_step [OF _ p0, of "[]"] fans_loop_step [OF _ p1, of "[?L0]"]
      fans_loop_step [OF _ p2, of "[?L0, ?L1]"] fans_loop_none [of 3 3 three_fans wc]
    by simp
  moreover have "influxSMCfans three_fans ?W = fans_loop three_fans (sint (3 :: 32 word)) 0 w0 None []"
    using c n by (rule influxSMCfans_count)
  ultimately have run: "influxSMCfans three_fans ?W = Some (wc, [?L0, ?L1, ?L2])" by simp
  from c n p0 p1 h2 p2 run show ?thesis by blast
qed

subsection \<open>The percent\<close>

text \<open>
  C5 (as amended). A pass of the loop whose four reads succeed and whose current, minimum
  and maximum speeds are not below zero computes the percent and, when the current speed is
  above zero, prints it. The percent is \<open>(cur - min) / (max - min)\<close>, with the numerator
  and the quotient in \<open>double\<close> and the denominator in \<open>float\<close>, stored in a \<open>float\<close>,
  multiplied by 100 in \<open>float\<close>, and replaced by +0 when it is below zero; nothing clamps
  it from above, and it is never below zero. With 3000, 1000 and 5000 it is exactly 50; with
  6000, 1000 and 5000 it is 125. For finite speeds with a current above zero and a maximum
  other than the minimum, whenever the two differences, their quotient and the quotient
  times 100 are numbers a \<open>float\<close> holds, the percent is the real number
  \<open>(current - min) / (max - min) * 100\<close>, or 0 when that is negative, except that it is the
  negative zero when the current equals the minimum and the maximum is below the minimum.
  For finite speeds with a current below the minimum and a maximum not below the minimum the
  percent is a zero, +0 or -0.
\<close>

theorem fan_percent_clamped:
  assumes "sprintf_key ''F'' i ''ID'' = Some kid" and "sprintf_key ''F'' i ''Ac'' = Some kac"
    and "sprintf_key ''F'' i ''Mn'' = Some kmn" and "sprintf_key ''F'' i ''Mx'' = Some kmx"
    and "SMCReadKey svc kid w = Some (kIOReturnSuccess, val, w1)"
    and "getSMCrpm svc kac w1 = Some (cur, w2)" and "\<not> fp_lt cur (Fin 0)"
    and "getSMCrpm svc kmn w2 = Some (mn, w3)" and "\<not> fp_lt mn (Fin 0)"
    and "getSMCrpm svc kmx w3 = Some (mx, w4)" and "\<not> fp_lt mx (Fin 0)"
  shows "fan_body svc nFans i w fanID
         = Some (w4, fan_label nFans i fanID,
             if fp_lt (Fin 0) cur
             then Some \<lparr>fan_index = i, sensor = fan_label nFans i fanID, rpm = cur,
                     percent = fan_percent cur mn mx\<rparr>
             else None)
       \<and> fan_percent cur mn mx
         = (if fp_lt (fp_mul binary32
                        (fp_convert binary32
                           (fp_div binary64 (fp_sub binary64 cur mn) (fp_sub binary32 mx mn)))
                        (Fin 100)) (Fin 0)
            then Fin 0
            else fp_mul binary32
                   (fp_convert binary32
                      (fp_div binary64 (fp_sub binary64 cur mn) (fp_sub binary32 mx mn)))
                   (Fin 100))
       \<and> \<not> fp_lt (fan_percent cur mn mx) (Fin 0)
       \<and> (cur = Fin 3000 \<and> mn = Fin 1000 \<and> mx = Fin 5000 \<longrightarrow> fan_percent cur mn mx = Fin 50)
       \<and> (cur = Fin 6000 \<and> mn = Fin 1000 \<and> mx = Fin 5000 \<longrightarrow> fan_percent cur mn mx = Fin 125)
       \<and> (fp_is_finite cur \<and> fp_is_finite mn \<and> fp_is_finite mx \<and> fp_lt (Fin 0) cur
          \<and> fp_val mx \<noteq> fp_val mn
          \<and> is_float (fp_val cur - fp_val mn) \<and> is_float (fp_val mx - fp_val mn)
          \<and> is_float ((fp_val cur - fp_val mn) / (fp_val mx - fp_val mn))
          \<and> is_float ((fp_val cur - fp_val mn) / (fp_val mx - fp_val mn) * 100)
          \<longrightarrow> fan_percent cur mn mx
              = (if fp_val cur = fp_val mn \<and> fp_val mx < fp_val mn then NZero
                 else Fin (max 0 ((fp_val cur - fp_val mn) / (fp_val mx - fp_val mn) * 100))))
       \<and> (fp_is_finite cur \<and> fp_is_finite mn \<and> fp_is_finite mx
          \<and> fp_val cur < fp_val mn \<and> fp_val mn \<le> fp_val mx
          \<longrightarrow> fan_percent cur mn mx = Fin 0 \<or> fan_percent cur mn mx = NZero)"
proof (intro conjI impI)
  show "fan_body svc nFans i w fanID
         = Some (w4, fan_label nFans i fanID,
             if fp_lt (Fin 0) cur
             then Some \<lparr>fan_index = i, sensor = fan_label nFans i fanID, rpm = cur,
                     percent = fan_percent cur mn mx\<rparr>
             else None)"
    using assms by (rule fan_body_reads)
  show "fan_percent cur mn mx
         = (if fp_lt (fp_mul binary32
                        (fp_convert binary32
                           (fp_div binary64 (fp_sub binary64 cur mn) (fp_sub binary32 mx mn)))
                        (Fin 100)) (Fin 0)
            then Fin 0
            else fp_mul binary32
                   (fp_convert binary32
                      (fp_div binary64 (fp_sub binary64 cur mn) (fp_sub binary32 mx mn)))
                   (Fin 100))"
    by (simp only: fan_percent_def Let_def)
  show "\<not> fp_lt (fan_percent cur mn mx) (Fin 0)" by (rule percent_never_negative)
next
  assume "cur = Fin 3000 \<and> mn = Fin 1000 \<and> mx = Fin 5000"
  then show "fan_percent cur mn mx = Fin 50" by (simp add: percent_3000)
next
  assume "cur = Fin 6000 \<and> mn = Fin 1000 \<and> mx = Fin 5000"
  then show "fan_percent cur mn mx = Fin 125" by (simp add: percent_6000)
next
  assume "fp_is_finite cur \<and> fp_is_finite mn \<and> fp_is_finite mx \<and> fp_lt (Fin 0) cur
          \<and> fp_val mx \<noteq> fp_val mn
          \<and> is_float (fp_val cur - fp_val mn) \<and> is_float (fp_val mx - fp_val mn)
          \<and> is_float ((fp_val cur - fp_val mn) / (fp_val mx - fp_val mn))
          \<and> is_float ((fp_val cur - fp_val mn) / (fp_val mx - fp_val mn) * 100)"
  then show "fan_percent cur mn mx
              = (if fp_val cur = fp_val mn \<and> fp_val mx < fp_val mn then NZero
                 else Fin (max 0 ((fp_val cur - fp_val mn) / (fp_val mx - fp_val mn) * 100)))"
    by (intro percent_exact_finite) simp_all
next
  assume h: "fp_is_finite cur \<and> fp_is_finite mn \<and> fp_is_finite mx
          \<and> fp_val cur < fp_val mn \<and> fp_val mn \<le> fp_val mx"
  have "is_float (fp_val cur)" using assms(6) by (rule getSMCrpm_is_float)
  moreover have "is_float (fp_val mn)" using assms(8) by (rule getSMCrpm_is_float)
  ultimately show "fan_percent cur mn mx = Fin 0 \<or> fan_percent cur mn mx = NZero"
    using h assms(7) by (intro percent_below_min_finite) simp_all
qed

theorem fan_percent_clamped_witness:
  "sprintf_key ''F'' 0 ''ID'' = Some (c_str ''F0ID'')
   \<and> sprintf_key ''F'' 0 ''Ac'' = Some (c_str ''F0Ac'')
   \<and> sprintf_key ''F'' 0 ''Mn'' = Some (c_str ''F0Mn'')
   \<and> sprintf_key ''F'' 0 ''Mx'' = Some (c_str ''F0Mx'')
   \<and> (\<exists>val w1 w2 w3 w4.
        SMCReadKey (one_fan [0x2E, 0xE0] [0x0F, 0xA0] [0x4E, 0x20]) (c_str ''F0ID'')
          \<lparr>device = (), calls = []\<rparr> = Some (kIOReturnSuccess, val, w1)
      \<and> getSMCrpm (one_fan [0x2E, 0xE0] [0x0F, 0xA0] [0x4E, 0x20]) (c_str ''F0Ac'') w1
          = Some (Fin 3000, w2)
      \<and> getSMCrpm (one_fan [0x2E, 0xE0] [0x0F, 0xA0] [0x4E, 0x20]) (c_str ''F0Mn'') w2
          = Some (Fin 1000, w3)
      \<and> getSMCrpm (one_fan [0x2E, 0xE0] [0x0F, 0xA0] [0x4E, 0x20]) (c_str ''F0Mx'') w3
          = Some (Fin 5000, w4)
      \<and> fan_body (one_fan [0x2E, 0xE0] [0x0F, 0xA0] [0x4E, 0x20]) 1 0
          \<lparr>device = (), calls = []\<rparr> None
          = Some (w4, Some ''Main'',
              Some \<lparr>fan_index = 0, sensor = Some ''Main'', rpm = Fin 3000, percent = Fin 50\<rparr>))
   \<and> (\<exists>val w1 w2 w3 w4.
        SMCReadKey (one_fan [0x5D, 0xC0] [0x0F, 0xA0] [0x4E, 0x20]) (c_str ''F0ID'')
          \<lparr>device = (), calls = []\<rparr> = Some (kIOReturnSuccess, val, w1)
      \<and> getSMCrpm (one_fan [0x5D, 0xC0] [0x0F, 0xA0] [0x4E, 0x20]) (c_str ''F0Ac'') w1
          = Some (Fin 6000, w2)
      \<and> getSMCrpm (one_fan [0x5D, 0xC0] [0x0F, 0xA0] [0x4E, 0x20]) (c_str ''F0Mn'') w2
          = Some (Fin 1000, w3)
      \<and> getSMCrpm (one_fan [0x5D, 0xC0] [0x0F, 0xA0] [0x4E, 0x20]) (c_str ''F0Mx'') w3
          = Some (Fin 5000, w4)
      \<and> fan_body (one_fan [0x5D, 0xC0] [0x0F, 0xA0] [0x4E, 0x20]) 1 0
          \<lparr>device = (), calls = []\<rparr> None
          = Some (w4, Some ''Main'',
              Some \<lparr>fan_index = 0, sensor = Some ''Main'', rpm = Fin 6000, percent = Fin 125\<rparr>))
   \<and> (\<exists>val w1 w2 w3 w4.
        SMCReadKey (one_fan [0x07, 0xD0] [0x0F, 0xA0] [0x1F, 0x40]) (c_str ''F0ID'')
          \<lparr>device = (), calls = []\<rparr> = Some (kIOReturnSuccess, val, w1)
      \<and> getSMCrpm (one_fan [0x07, 0xD0] [0x0F, 0xA0] [0x1F, 0x40]) (c_str ''F0Ac'') w1
          = Some (Fin 500, w2)
      \<and> getSMCrpm (one_fan [0x07, 0xD0] [0x0F, 0xA0] [0x1F, 0x40]) (c_str ''F0Mn'') w2
          = Some (Fin 1000, w3)
      \<and> getSMCrpm (one_fan [0x07, 0xD0] [0x0F, 0xA0] [0x1F, 0x40]) (c_str ''F0Mx'') w3
          = Some (Fin 2000, w4)
      \<and> fan_body (one_fan [0x07, 0xD0] [0x0F, 0xA0] [0x1F, 0x40]) 1 0
          \<lparr>device = (), calls = []\<rparr> None
          = Some (w4, Some ''Main'',
              Some \<lparr>fan_index = 0, sensor = Some ''Main'', rpm = Fin 500, percent = Fin 0\<rparr>))
   \<and> is_float (3000 - 1000) \<and> is_float (5000 - 1000)
   \<and> is_float ((3000 - 1000) / (5000 - 1000))
   \<and> is_float ((3000 - 1000) / (5000 - 1000) * 100)
   \<and> is_float (500 - 1000) \<and> is_float (2000 - 1000)
   \<and> is_float ((500 - 1000) / (2000 - 1000))
   \<and> is_float ((500 - 1000) / (2000 - 1000) * 100)"
proof -
  let ?W = "\<lparr>device = (), calls = []\<rparr> :: unit smc_world"
  have g: "\<not> fp_lt (Fin 3000) (Fin 0)" "\<not> fp_lt (Fin 1000) (Fin 0)"
    "\<not> fp_lt (Fin 5000) (Fin 0)" "\<not> fp_lt (Fin 6000) (Fin 0)"
    "\<not> fp_lt (Fin 500) (Fin 0)" "\<not> fp_lt (Fin 2000) (Fin 0)"
    and p: "fp_lt (Fin 0) (Fin 3000)" "fp_lt (Fin 0) (Fin 6000)" "fp_lt (Fin 0) (Fin 500)"
    by (simp_all add: fp_lt_def)
  have e: "is_float (3000 - 1000)" "is_float (5000 - 1000)"
    "is_float ((3000 - 1000) / (5000 - 1000))"
    "is_float ((3000 - 1000) / (5000 - 1000) * 100)"
    "is_float (500 - 1000)" "is_float (2000 - 1000)"
    "is_float ((500 - 1000) / (2000 - 1000))"
    "is_float ((500 - 1000) / (2000 - 1000) * 100)"
    by (simp_all add: is_float_def fp_eval)
  from one_fan_pass [OF fpe2_values(1) fpe2_values(2) fpe2_values(3), of ?W]
  obtain val w1 w2 w3 w4
    where a: "SMCReadKey (one_fan [0x2E, 0xE0] [0x0F, 0xA0] [0x4E, 0x20]) (c_str ''F0ID'') ?W
          = Some (kIOReturnSuccess, val, w1)"
      "getSMCrpm (one_fan [0x2E, 0xE0] [0x0F, 0xA0] [0x4E, 0x20]) (c_str ''F0Ac'') w1
          = Some (Fin 3000, w2)"
      "getSMCrpm (one_fan [0x2E, 0xE0] [0x0F, 0xA0] [0x4E, 0x20]) (c_str ''F0Mn'') w2
          = Some (Fin 1000, w3)"
      "getSMCrpm (one_fan [0x2E, 0xE0] [0x0F, 0xA0] [0x4E, 0x20]) (c_str ''F0Mx'') w3
          = Some (Fin 5000, w4)"
    by blast
  note A = fan_percent_clamped [where nFans = 1 and fanID = None,
      OF fan_keys(1-4) a(1) a(2) g(1) a(3) g(2) a(4) g(3)]
  from A [THEN conjunct2, THEN conjunct2, THEN conjunct2, THEN conjunct1]
  have "fan_percent (Fin 3000) (Fin 1000) (Fin 5000) = Fin 50" by simp
  with A [THEN conjunct1] p(1) have ba: "fan_body (one_fan [0x2E, 0xE0] [0x0F, 0xA0] [0x4E, 0x20]) 1 0 ?W None
      = Some (w4, Some ''Main'',
          Some \<lparr>fan_index = 0, sensor = Some ''Main'', rpm = Fin 3000, percent = Fin 50\<rparr>)"
    by (simp add: fan_label_def)
  from one_fan_pass [OF fpe2_values(4) fpe2_values(2) fpe2_values(3), of ?W]
  obtain val' v1 v2 v3 v4
    where b: "SMCReadKey (one_fan [0x5D, 0xC0] [0x0F, 0xA0] [0x4E, 0x20]) (c_str ''F0ID'') ?W
          = Some (kIOReturnSuccess, val', v1)"
      "getSMCrpm (one_fan [0x5D, 0xC0] [0x0F, 0xA0] [0x4E, 0x20]) (c_str ''F0Ac'') v1
          = Some (Fin 6000, v2)"
      "getSMCrpm (one_fan [0x5D, 0xC0] [0x0F, 0xA0] [0x4E, 0x20]) (c_str ''F0Mn'') v2
          = Some (Fin 1000, v3)"
      "getSMCrpm (one_fan [0x5D, 0xC0] [0x0F, 0xA0] [0x4E, 0x20]) (c_str ''F0Mx'') v3
          = Some (Fin 5000, v4)"
    by blast
  note B = fan_percent_clamped [where nFans = 1 and fanID = None,
      OF fan_keys(1-4) b(1) b(2) g(4) b(3) g(2) b(4) g(3)]
  from B [THEN conjunct2, THEN conjunct2, THEN conjunct2, THEN conjunct2, THEN conjunct1]
  have "fan_percent (Fin 6000) (Fin 1000) (Fin 5000) = Fin 125" by simp
  with B [THEN conjunct1] p(2) have bb: "fan_body (one_fan [0x5D, 0xC0] [0x0F, 0xA0] [0x4E, 0x20]) 1 0 ?W None
      = Some (v4, Some ''Main'',
          Some \<lparr>fan_index = 0, sensor = Some ''Main'', rpm = Fin 6000, percent = Fin 125\<rparr>)"
    by (simp add: fan_label_def)
  from one_fan_pass [OF fpe2_values(5) fpe2_values(2) fpe2_values(6), of ?W]
  obtain val'' u1 u2 u3 u4
    where c: "SMCReadKey (one_fan [0x07, 0xD0] [0x0F, 0xA0] [0x1F, 0x40]) (c_str ''F0ID'') ?W
          = Some (kIOReturnSuccess, val'', u1)"
      "getSMCrpm (one_fan [0x07, 0xD0] [0x0F, 0xA0] [0x1F, 0x40]) (c_str ''F0Ac'') u1
          = Some (Fin 500, u2)"
      "getSMCrpm (one_fan [0x07, 0xD0] [0x0F, 0xA0] [0x1F, 0x40]) (c_str ''F0Mn'') u2
          = Some (Fin 1000, u3)"
      "getSMCrpm (one_fan [0x07, 0xD0] [0x0F, 0xA0] [0x1F, 0x40]) (c_str ''F0Mx'') u3
          = Some (Fin 2000, u4)"
    by blast
  note C = fan_percent_clamped [where nFans = 1 and fanID = None,
      OF fan_keys(1-4) c(1) c(2) g(5) c(3) g(2) c(4) g(6)]
  from C [THEN conjunct2, THEN conjunct2, THEN conjunct2, THEN conjunct2, THEN conjunct2,
      THEN conjunct1] e(5-8) p(3)
  have "fan_percent (Fin 500) (Fin 1000) (Fin 2000) = Fin 0" by simp
  with C [THEN conjunct1] p(3) have bc: "fan_body (one_fan [0x07, 0xD0] [0x0F, 0xA0] [0x1F, 0x40]) 1 0 ?W None
      = Some (u4, Some ''Main'',
          Some \<lparr>fan_index = 0, sensor = Some ''Main'', rpm = Fin 500, percent = Fin 0\<rparr>)"
    by (simp add: fan_label_def)
  from a ba have 1: "\<exists>val w1 w2 w3 w4.
        SMCReadKey (one_fan [0x2E, 0xE0] [0x0F, 0xA0] [0x4E, 0x20]) (c_str ''F0ID'') ?W
          = Some (kIOReturnSuccess, val, w1)
      \<and> getSMCrpm (one_fan [0x2E, 0xE0] [0x0F, 0xA0] [0x4E, 0x20]) (c_str ''F0Ac'') w1
          = Some (Fin 3000, w2)
      \<and> getSMCrpm (one_fan [0x2E, 0xE0] [0x0F, 0xA0] [0x4E, 0x20]) (c_str ''F0Mn'') w2
          = Some (Fin 1000, w3)
      \<and> getSMCrpm (one_fan [0x2E, 0xE0] [0x0F, 0xA0] [0x4E, 0x20]) (c_str ''F0Mx'') w3
          = Some (Fin 5000, w4)
      \<and> fan_body (one_fan [0x2E, 0xE0] [0x0F, 0xA0] [0x4E, 0x20]) 1 0 ?W None
          = Some (w4, Some ''Main'',
              Some \<lparr>fan_index = 0, sensor = Some ''Main'', rpm = Fin 3000, percent = Fin 50\<rparr>)"
    by blast
  from b bb have 2: "\<exists>val w1 w2 w3 w4.
        SMCReadKey (one_fan [0x5D, 0xC0] [0x0F, 0xA0] [0x4E, 0x20]) (c_str ''F0ID'') ?W
          = Some (kIOReturnSuccess, val, w1)
      \<and> getSMCrpm (one_fan [0x5D, 0xC0] [0x0F, 0xA0] [0x4E, 0x20]) (c_str ''F0Ac'') w1
          = Some (Fin 6000, w2)
      \<and> getSMCrpm (one_fan [0x5D, 0xC0] [0x0F, 0xA0] [0x4E, 0x20]) (c_str ''F0Mn'') w2
          = Some (Fin 1000, w3)
      \<and> getSMCrpm (one_fan [0x5D, 0xC0] [0x0F, 0xA0] [0x4E, 0x20]) (c_str ''F0Mx'') w3
          = Some (Fin 5000, w4)
      \<and> fan_body (one_fan [0x5D, 0xC0] [0x0F, 0xA0] [0x4E, 0x20]) 1 0 ?W None
          = Some (w4, Some ''Main'',
              Some \<lparr>fan_index = 0, sensor = Some ''Main'', rpm = Fin 6000, percent = Fin 125\<rparr>)"
    by blast
  from c bc have 3: "\<exists>val w1 w2 w3 w4.
        SMCReadKey (one_fan [0x07, 0xD0] [0x0F, 0xA0] [0x1F, 0x40]) (c_str ''F0ID'') ?W
          = Some (kIOReturnSuccess, val, w1)
      \<and> getSMCrpm (one_fan [0x07, 0xD0] [0x0F, 0xA0] [0x1F, 0x40]) (c_str ''F0Ac'') w1
          = Some (Fin 500, w2)
      \<and> getSMCrpm (one_fan [0x07, 0xD0] [0x0F, 0xA0] [0x1F, 0x40]) (c_str ''F0Mn'') w2
          = Some (Fin 1000, w3)
      \<and> getSMCrpm (one_fan [0x07, 0xD0] [0x0F, 0xA0] [0x1F, 0x40]) (c_str ''F0Mx'') w3
          = Some (Fin 2000, w4)
      \<and> fan_body (one_fan [0x07, 0xD0] [0x0F, 0xA0] [0x1F, 0x40]) 1 0 ?W None
          = Some (w4, Some ''Main'',
              Some \<lparr>fan_index = 0, sensor = Some ''Main'', rpm = Fin 500, percent = Fin 0\<rparr>)"
    by blast
  from fan_keys(1-4) 1 2 3 e show ?thesis by (intro conjI)
qed

text \<open>With a maximum below the minimum a current below the minimum gives 250, not 0.\<close>

theorem fan_percent_below_min_250:
  "map_option snd (influxSMCfans (one_fan [0x07, 0xD0] [0x0F, 0xA0] [0x0C, 0x80])
       \<lparr>device = (), calls = []\<rparr>)
     = Some [\<lparr>fan_index = 0, sensor = Some ''Main'', rpm = Fin 500, percent = Fin 250\<rparr>]"
proof -
  have "fan_percent (Fin 500) (Fin 1000) (Fin 800) = Fin 250"
    by (simp add: fan_percent_def fp_eval)
  moreover have "\<not> fp_lt (Fin 500) (Fin 0)" "\<not> fp_lt (Fin 1000) (Fin 0)"
    "\<not> fp_lt (Fin 800) (Fin 0)" "fp_lt (Fin 0) (Fin 500)"
    by (simp_all add: fp_lt_def)
  ultimately show ?thesis
    using one_fan_run [OF fpe2_values(5) fpe2_values(2) fpe2_values(7)] by simp
qed

text \<open>
  C10 (as amended). A pass of the loop whose four reads succeed with no value below zero and
  with a maximum equal to the minimum divides all the same: nothing in the body compares the
  two. When the limits are finite the divisor \<open>max - min\<close> is a zero, the negative one only
  for a maximum of -0 and a minimum of +0, and the percent is NaN when the current speed
  equals the minimum or is a NaN, 0 when it is below the minimum, the clamp replacing the
  negative infinity, and the positive infinity when it is above, except that it is 0 when
  the divisor is the negative zero. When the limits are both the positive infinity the
  divisor and the percent are NaN.
\<close>

theorem percent_equal_limits:
  assumes "sprintf_key ''F'' i ''ID'' = Some kid" and "sprintf_key ''F'' i ''Ac'' = Some kac"
    and "sprintf_key ''F'' i ''Mn'' = Some kmn" and "sprintf_key ''F'' i ''Mx'' = Some kmx"
    and "SMCReadKey svc kid w = Some (kIOReturnSuccess, val, w1)"
    and "getSMCrpm svc kac w1 = Some (cur, w2)" and "\<not> fp_lt cur (Fin 0)"
    and "getSMCrpm svc kmn w2 = Some (mn, w3)" and "\<not> fp_lt mn (Fin 0)"
    and "getSMCrpm svc kmx w3 = Some (mx, w4)" and "\<not> fp_lt mx (Fin 0)"
    and "fp_eq mx mn"
  shows "fan_body svc nFans i w fanID
         = Some (w4, fan_label nFans i fanID,
             if fp_lt (Fin 0) cur
             then Some \<lparr>fan_index = i, sensor = fan_label nFans i fanID, rpm = cur,
                     percent = fan_percent cur mn mx\<rparr>
             else None)
       \<and> fan_percent cur mn mx
         = (let pct = fp_mul binary32
                        (fp_convert binary32
                           (fp_div binary64 (fp_sub binary64 cur mn) (fp_sub binary32 mx mn)))
                        (Fin 100)
            in if fp_lt pct (Fin 0) then Fin 0 else pct)
       \<and> fp_sub binary32 mx mn
         = (if mn = PInf then NaN else if mx = NZero \<and> mn = Fin 0 then NZero else Fin 0)
       \<and> fan_percent cur mn mx
         = (if mn = PInf \<or> cur = NaN then NaN
            else if cur = PInf then (if mx = NZero \<and> mn = Fin 0 then Fin 0 else PInf)
            else if fp_val cur = fp_val mn then NaN
            else if fp_val cur < fp_val mn then Fin 0
            else if mx = NZero \<and> mn = Fin 0 then Fin 0
            else PInf)"
proof -
  have fc: "is_float (fp_val cur)" using assms(6) by (rule getSMCrpm_is_float)
  have fm: "is_float (fp_val mn)" using assms(8) by (rule getSMCrpm_is_float)
  have "fan_body svc nFans i w fanID
         = Some (w4, fan_label nFans i fanID,
             if fp_lt (Fin 0) cur
             then Some \<lparr>fan_index = i, sensor = fan_label nFans i fanID, rpm = cur,
                     percent = fan_percent cur mn mx\<rparr>
             else None)"
    using assms(1-11) by (rule fan_body_reads)
  moreover have "fan_percent cur mn mx
         = (let pct = fp_mul binary32
                        (fp_convert binary32
                           (fp_div binary64 (fp_sub binary64 cur mn) (fp_sub binary32 mx mn)))
                        (Fin 100)
            in if fp_lt pct (Fin 0) then Fin 0 else pct)"
    by (simp only: fan_percent_def Let_def)
  moreover note equal_limits_percent [OF assms(7) assms(9) assms(12) fc fm]
  ultimately show ?thesis by (intro conjI)
qed

theorem percent_equal_limits_witness:
  "sprintf_key ''F'' 0 ''ID'' = Some (c_str ''F0ID'')
   \<and> sprintf_key ''F'' 0 ''Ac'' = Some (c_str ''F0Ac'')
   \<and> sprintf_key ''F'' 0 ''Mn'' = Some (c_str ''F0Mn'')
   \<and> sprintf_key ''F'' 0 ''Mx'' = Some (c_str ''F0Mx'')
   \<and> fp_eq (Fin 1000) (Fin 1000)
   \<and> fp_sub binary32 (Fin 1000) (Fin 1000) = Fin 0
   \<and> (\<exists>val w1 w2 w3 w4.
        SMCReadKey (one_fan [0x17, 0x70] [0x0F, 0xA0] [0x0F, 0xA0]) (c_str ''F0ID'')
          \<lparr>device = (), calls = []\<rparr> = Some (kIOReturnSuccess, val, w1)
      \<and> getSMCrpm (one_fan [0x17, 0x70] [0x0F, 0xA0] [0x0F, 0xA0]) (c_str ''F0Ac'') w1
          = Some (Fin 1500, w2)
      \<and> getSMCrpm (one_fan [0x17, 0x70] [0x0F, 0xA0] [0x0F, 0xA0]) (c_str ''F0Mn'') w2
          = Some (Fin 1000, w3)
      \<and> getSMCrpm (one_fan [0x17, 0x70] [0x0F, 0xA0] [0x0F, 0xA0]) (c_str ''F0Mx'') w3
          = Some (Fin 1000, w4)
      \<and> fan_body (one_fan [0x17, 0x70] [0x0F, 0xA0] [0x0F, 0xA0]) 1 0
          \<lparr>device = (), calls = []\<rparr> None
          = Some (w4, Some ''Main'',
              Some \<lparr>fan_index = 0, sensor = Some ''Main'', rpm = Fin 1500, percent = PInf\<rparr>))"
proof -
  let ?W = "\<lparr>device = (), calls = []\<rparr> :: unit smc_world"
  have g: "\<not> fp_lt (Fin 1500) (Fin 0)" "\<not> fp_lt (Fin 1000) (Fin 0)"
    and p: "fp_lt (Fin 0) (Fin 1500)"
    by (simp_all add: fp_lt_def)
  have q: "fp_eq (Fin 1000) (Fin 1000)" by (simp add: fp_eq_def)
  from one_fan_pass [OF fpe2_values(8) fpe2_values(2) fpe2_values(2), of ?W]
  obtain val w1 w2 w3 w4
    where a: "SMCReadKey (one_fan [0x17, 0x70] [0x0F, 0xA0] [0x0F, 0xA0]) (c_str ''F0ID'') ?W
          = Some (kIOReturnSuccess, val, w1)"
      "getSMCrpm (one_fan [0x17, 0x70] [0x0F, 0xA0] [0x0F, 0xA0]) (c_str ''F0Ac'') w1
          = Some (Fin 1500, w2)"
      "getSMCrpm (one_fan [0x17, 0x70] [0x0F, 0xA0] [0x0F, 0xA0]) (c_str ''F0Mn'') w2
          = Some (Fin 1000, w3)"
      "getSMCrpm (one_fan [0x17, 0x70] [0x0F, 0xA0] [0x0F, 0xA0]) (c_str ''F0Mx'') w3
          = Some (Fin 1000, w4)"
    by blast
  note A = percent_equal_limits [where nFans = 1 and fanID = None,
      OF fan_keys(1-4) a(1) a(2) g(1) a(3) g(2) a(4) g(2) q]
  from A [THEN conjunct2, THEN conjunct2, THEN conjunct1]
  have d: "fp_sub binary32 (Fin 1000) (Fin 1000) = Fin 0" by simp
  from A [THEN conjunct2, THEN conjunct2, THEN conjunct2]
  have "fan_percent (Fin 1500) (Fin 1000) (Fin 1000) = PInf" by simp
  with A [THEN conjunct1] p have b: "fan_body (one_fan [0x17, 0x70] [0x0F, 0xA0] [0x0F, 0xA0]) 1 0 ?W None
      = Some (w4, Some ''Main'',
          Some \<lparr>fan_index = 0, sensor = Some ''Main'', rpm = Fin 1500, percent = PInf\<rparr>)"
    by (simp add: fan_label_def)
  from a b have "\<exists>val w1 w2 w3 w4.
        SMCReadKey (one_fan [0x17, 0x70] [0x0F, 0xA0] [0x0F, 0xA0]) (c_str ''F0ID'') ?W
          = Some (kIOReturnSuccess, val, w1)
      \<and> getSMCrpm (one_fan [0x17, 0x70] [0x0F, 0xA0] [0x0F, 0xA0]) (c_str ''F0Ac'') w1
          = Some (Fin 1500, w2)
      \<and> getSMCrpm (one_fan [0x17, 0x70] [0x0F, 0xA0] [0x0F, 0xA0]) (c_str ''F0Mn'') w2
          = Some (Fin 1000, w3)
      \<and> getSMCrpm (one_fan [0x17, 0x70] [0x0F, 0xA0] [0x0F, 0xA0]) (c_str ''F0Mx'') w3
          = Some (Fin 1000, w4)
      \<and> fan_body (one_fan [0x17, 0x70] [0x0F, 0xA0] [0x0F, 0xA0]) 1 0 ?W None
          = Some (w4, Some ''Main'',
              Some \<lparr>fan_index = 0, sensor = Some ''Main'', rpm = Fin 1500, percent = PInf\<rparr>)"
    by blast
  with fan_keys(1-4) q d show ?thesis by (intro conjI)
qed

text \<open>With equal limits a current below the minimum gives 0, a finite number.\<close>

theorem percent_equal_limits_below_is_zero:
  "map_option snd (influxSMCfans (one_fan [0x07, 0xD0] [0x0F, 0xA0] [0x0F, 0xA0])
       \<lparr>device = (), calls = []\<rparr>)
     = Some [\<lparr>fan_index = 0, sensor = Some ''Main'', rpm = Fin 500, percent = Fin 0\<rparr>]"
proof -
  have "fan_percent (Fin 500) (Fin 1000) (Fin 1000) = Fin 0"
    by (simp add: fan_percent_def fp_eval)
  moreover have "\<not> fp_lt (Fin 500) (Fin 0)" "\<not> fp_lt (Fin 1000) (Fin 0)"
    "fp_lt (Fin 0) (Fin 500)"
    by (simp_all add: fp_lt_def)
  ultimately show ?thesis
    using one_fan_run [OF fpe2_values(5) fpe2_values(2) fpe2_values(2)] by simp
qed

subsection \<open>The count of fans\<close>

text \<open>
  C7. The fan count is meant to be the big-endian unsigned value of the bytes of \<open>FNum\<close>.
  When the controller answers \<open>FNum\<close> with the two bytes \<open>01 00\<close>, that value is 256, while
  \<open>_strtoul\<close> with base 10 returns 0, because its cast to \<open>unsigned char\<close> is applied after the
  shift and keeps the last byte only; \<open>influxSMCfans\<close> then prints no line at all.
\<close>

theorem fan_count_two_bytes:
  "smc_strtoul (0x01 # 0x00 # replicate 30 0) 2 10 = Some 0
   \<and> be_unsigned [0x01, 0x00] = 256
   \<and> (\<exists>w'. influxSMCfans (answer_service
          \<lparr>SMCKeyData_keyInfo_t.dataSize = 2, dataType = 0x75693136, dataAttributes = 0\<rparr>
          (0x01 # 0x00 # replicate 30 0)) \<lparr>device = (), calls = []\<rparr> = Some (w', []))"
  by (simp add: influxSMCfans_def smc_eval fans_loop.simps)

end
